theory Spec2Isabelle
  imports Main "HOL-Library.Sublist"
begin

section \<open>Data model (types.ts)\<close>

text \<open>
  \<^verbatim>\<open>AnalysisResult\<close> and \<^verbatim>\<open>FileNode\<close> are interfaces with plain fields and become
  records. \<^verbatim>\<open>TreeNode = FileNode | FolderNode\<close> is a union tagged by the field
  \<^verbatim>\<open>type\<close>; the tag is the constructor, and a folder's four fields \<^verbatim>\<open>id\<close>,
  \<^verbatim>\<open>name\<close>, \<^verbatim>\<open>children\<close>, \<^verbatim>\<open>path\<close> are the constructor's arguments in that order.
  The optional field \<^verbatim>\<open>analysis?\<close> is an option. JavaScript strings are modelled as
  \<^typ>\<open>string\<close>; only equality and \<^verbatim>\<open>startsWith\<close> are used on them.
  The fields \<^verbatim>\<open>id\<close>, \<^verbatim>\<open>name\<close> and \<^verbatim>\<open>path\<close> of a file are called \<open>node_id\<close>,
  \<open>node_name\<close> and \<open>node_path\<close>.
\<close>

record AnalysisResult =
  summary :: string
  suggestedName :: string
  tags :: "string list"
  documentType :: string

record FileNode =
  node_id :: string
  node_name :: string
  content :: string
  mimeType :: string
  analysis :: "AnalysisResult option"
  node_path :: string

datatype TreeNode =
    File FileNode
  | Folder string string "TreeNode list" string

fun idOf :: "TreeNode \<Rightarrow> string" where
  "idOf (File f) = node_id f"
| "idOf (Folder i n ch p) = i"

section \<open>Tree helpers (App.tsx, module level)\<close>

text \<open>
  \<^verbatim>\<open>updateNodeInTree\<close> is \<^verbatim>\<open>nodes.map(node => ...)\<close>: a node whose id matches is
  replaced by \<^verbatim>\<open>updateFn(node)\<close> (and not descended into), a folder that does not
  match is rebuilt with its children updated, any other node is kept.
\<close>

fun updateNodeInTree ::
  "TreeNode list \<Rightarrow> string \<Rightarrow> (TreeNode \<Rightarrow> TreeNode) \<Rightarrow> TreeNode list" where
  "updateNodeInTree [] nodeId updateFn = []"
| "updateNodeInTree (File f # rest) nodeId updateFn =
     (if node_id f = nodeId then updateFn (File f) else File f)
       # updateNodeInTree rest nodeId updateFn"
| "updateNodeInTree (Folder i n ch p # rest) nodeId updateFn =
     (if i = nodeId then updateFn (Folder i n ch p)
      else Folder i n (updateNodeInTree ch nodeId updateFn) p)
       # updateNodeInTree rest nodeId updateFn"

text \<open>
  \<^verbatim>\<open>removeNodeFromTree\<close>: the \<^verbatim>\<open>for\<close> loop pushes onto \<^verbatim>\<open>newNodes\<close> in iteration
  order; \<^verbatim>\<open>continue\<close> skips a matching node of either kind.
\<close>

fun removeNodeFromTree :: "TreeNode list \<Rightarrow> string \<Rightarrow> TreeNode list" where
  "removeNodeFromTree [] nodeId = []"
| "removeNodeFromTree (File f # rest) nodeId =
     (if node_id f = nodeId then removeNodeFromTree rest nodeId
      else File f # removeNodeFromTree rest nodeId)"
| "removeNodeFromTree (Folder i n ch p # rest) nodeId =
     (if i = nodeId then removeNodeFromTree rest nodeId
      else Folder i n (removeNodeFromTree ch nodeId) p # removeNodeFromTree rest nodeId)"

text \<open>\<^verbatim>\<open>node.mimeType.startsWith('image/')\<close>\<close>

definition isImage :: "FileNode \<Rightarrow> bool" where
  "isImage f = prefix ''image/'' (mimeType f)"

text \<open>
  \<^verbatim>\<open>findAllImageFiles\<close>: an image file is pushed, a folder contributes the images of
  its children (spread onto the end of \<^verbatim>\<open>imageFiles\<close>), other files are skipped.
\<close>

fun findAllImageFiles :: "TreeNode list \<Rightarrow> FileNode list" where
  "findAllImageFiles [] = []"
| "findAllImageFiles (File f # rest) =
     (if isImage f then f # findAllImageFiles rest else findAllImageFiles rest)"
| "findAllImageFiles (Folder i n ch p # rest) =
     findAllImageFiles ch @ findAllImageFiles rest"

text \<open>
  \<^verbatim>\<open>findNodeInTree\<close>: the first match in pre-order; \<^verbatim>\<open>null\<close> is \<open>None\<close>. A found
  node is an object, hence truthy, so \<^verbatim>\<open>if (found) return found\<close> returns every
  match of the recursive call.
\<close>

fun findNodeInTree :: "TreeNode list \<Rightarrow> string \<Rightarrow> TreeNode option" where
  "findNodeInTree [] nodeId = None"
| "findNodeInTree (File f # rest) nodeId =
     (if node_id f = nodeId then Some (File f) else findNodeInTree rest nodeId)"
| "findNodeInTree (Folder i n ch p # rest) nodeId =
     (if i = nodeId then Some (Folder i n ch p)
      else (case findNodeInTree ch nodeId of
              Some found \<Rightarrow> Some found
            | None \<Rightarrow> findNodeInTree rest nodeId))"

section \<open>Vocabulary for stating properties of trees\<close>

text \<open>
  \<open>allNodes\<close> lists every node of a forest in pre-order (a folder before its children,
  siblings left to right); \<open>treeIds\<close> lists their ids. \<open>shallow\<close> keeps a node's own
  fields and drops a folder's children, so that \<open>labels\<close> records, in pre-order, what
  each node is without repeating its subtree. \<open>allFiles\<close> lists the file nodes.
\<close>

fun allNodes :: "TreeNode list \<Rightarrow> TreeNode list" where
  "allNodes [] = []"
| "allNodes (File f # rest) = File f # allNodes rest"
| "allNodes (Folder i n ch p # rest) = Folder i n ch p # allNodes ch @ allNodes rest"

definition treeIds :: "TreeNode list \<Rightarrow> string list" where
  "treeIds T = map idOf (allNodes T)"

fun shallow :: "TreeNode \<Rightarrow> TreeNode" where
  "shallow (File f) = File f"
| "shallow (Folder i n ch p) = Folder i n [] p"

definition labels :: "TreeNode list \<Rightarrow> TreeNode list" where
  "labels T = map shallow (allNodes T)"

fun allFiles :: "TreeNode list \<Rightarrow> FileNode list" where
  "allFiles [] = []"
| "allFiles (File f # rest) = f # allFiles rest"
| "allFiles (Folder i n ch p # rest) = allFiles ch @ allFiles rest"


text \<open>The seed workspace \<^verbatim>\<open>initialTreeData\<close>.\<close>

definition initialTreeData :: "TreeNode list" where
  "initialTreeData =
     [Folder ''1'' ''Documents''
        [File \<lparr>node_id = ''2'', node_name = ''report.txt'',
               content = ''This is the final report for Project Alpha. It includes a summary of findings and recommendations.'',
               mimeType = ''text/plain'', analysis = None,
               node_path = ''/Documents/report.txt''\<rparr>]
        ''/Documents'',
      Folder ''3'' ''Images'' [] ''/Images'']"

section \<open>Application state (the component \<^verbatim>\<open>App\<close>)\<close>

text \<open>
  The \<^verbatim>\<open>useState\<close> cells of \<^verbatim>\<open>App\<close> form one record. A handler is a function from
  the state at its call to the state it leaves; \<^verbatim>\<open>setX(prev => g(prev))\<close> is the
  update of field \<open>X\<close> by \<open>g\<close>. Each handler is modelled as running alone: no other
  handler changes the state between its steps.

  \<open>updaterRunsAtCall\<close> is not a cell of the component. React applies an updater
  function either while the setter is being called (when no update is queued for the
  component) or at the next render; the field says which. The state a handler
  leaves is the same in both cases, except where the updater assigns to a variable
  that the handler reads right after the setter returns, as \<^verbatim>\<open>handleAddTag\<close> does.

  The text shown in the propagation banner is one of five templates; the interpolated
  numbers are kept as arguments:
  \<^item> \<open>NoMessage\<close>: the empty string;
  \<^item> \<open>Scanning\<close>: \<^verbatim>\<open>Scanning for similar images... This may take a moment.\<close>
  \<^item> \<open>NoOtherImages\<close>: \<^verbatim>\<open>No other images found to compare.\<close>
  \<^item> \<open>Comparing i n\<close>: \<^verbatim>\<open>Comparing image ${i + 1} of ${otherImages.length}...\<close>
  \<^item> \<open>TagApplied c\<close>: \<^verbatim>\<open>Smart tag applied! ${updatedCount} other image(s) were updated.\<close>

  A propagation run sets \<open>Scanning\<close> first and \<open>Comparing i n\<close> before each comparison;
  both are overwritten before the run ends, and the model keeps the banner a run
  leaves behind.
\<close>

datatype StatusMessage =
    NoMessage
  | Scanning
  | NoOtherImages
  | Comparing nat nat
  | TagApplied nat

record PropagationStatus =
  running :: bool
  message :: StatusMessage

record AppState =
  treeData :: "TreeNode list"
  selectedFile :: "FileNode option"
  isLoading :: bool
  error :: "string option"
  propagationStatus :: PropagationStatus
  updaterRunsAtCall :: bool

subsection \<open>\<^verbatim>\<open>handleSelectNode\<close>\<close>

text \<open>
  \<^verbatim>\<open>analyzeFile\<close> of the Gemini service is the external analyzer. It is a parameter:
  given name, content and mime type it resolves to an analysis (\<open>Inr\<close>) or rejects
  with an \<^verbatim>\<open>Error\<close> whose message is the \<open>Inl\<close> value. Beside the final state the
  model returns the list of argument triples with which the analyzer was invoked.

  \<^verbatim>\<open>updateAnalysis\<close> spreads the node and sets \<^verbatim>\<open>analysis\<close>. \<^verbatim>\<open>updateNodeInTree\<close>
  calls it only on nodes whose id is \<^verbatim>\<open>node.id\<close>. On a folder object the spread adds a
  property that \<^verbatim>\<open>FolderNode\<close> does not declare; the datatype has no place for it and
  the folder is returned as it is.
\<close>

type_synonym analyzer = "string \<Rightarrow> string \<Rightarrow> string \<Rightarrow> string + AnalysisResult"

fun updateAnalysis :: "string \<Rightarrow> AnalysisResult \<Rightarrow> TreeNode \<Rightarrow> TreeNode" where
  "updateAnalysis nodeId analysisResult (File n) =
     (if node_id n = nodeId then File (n\<lparr>analysis := Some analysisResult\<rparr>) else File n)"
| "updateAnalysis nodeId analysisResult (Folder i n ch p) = Folder i n ch p"

definition handleSelectNode ::
  "analyzer \<Rightarrow> AppState \<Rightarrow> FileNode \<Rightarrow> AppState \<times> (string \<times> string \<times> string) list" where
  "handleSelectNode analyzeFile st node =
     (let st1 = st\<lparr>selectedFile := Some node, error := None\<rparr> in
      case analysis node of
        Some cached \<Rightarrow> (st1, [])
      | None \<Rightarrow>
          (let st2 = st1\<lparr>isLoading := True\<rparr>;
               call = (node_name node, content node, mimeType node)
           in case analyzeFile (node_name node) (content node) (mimeType node) of
                Inr analysisResult \<Rightarrow>
                  (st2\<lparr>treeData :=
                          updateNodeInTree (treeData st2) (node_id node)
                            (updateAnalysis (node_id node) analysisResult),
                        selectedFile :=
                          (case selectedFile st2 of
                             Some prevFile \<Rightarrow>
                               if node_id prevFile = node_id node
                               then Some (prevFile\<lparr>analysis := Some analysisResult\<rparr>)
                               else Some prevFile
                           | None \<Rightarrow> None),
                        isLoading := False\<rparr>,
                   [call])
              | Inl msg \<Rightarrow>
                  (st2\<lparr>error :=
                          Some (if msg = [] then
                                  ''Failed to analyze the file. An unknown error occurred.''
                                else msg),
                        isLoading := False\<rparr>,
                   [call])))"

subsection \<open>\<^verbatim>\<open>handleAddTag\<close>\<close>

text \<open>
  \<open>addTagUpdateFn\<close> is the closure \<^verbatim>\<open>updateFn\<close> of \<^verbatim>\<open>handleAddTag\<close>. Its assignment to
  the captured variable \<^verbatim>\<open>updatedNode\<close> happens on every call for a file node with
  the id, with the node it returns; \<open>updateFnCalls\<close> lists the nodes that
  \<^verbatim>\<open>updateNodeInTree\<close> passes to the closure, in call order, so once the updater has
  run the variable is the last file among the results. \<^verbatim>\<open>if (updatedNode)\<close> is read
  right after \<^verbatim>\<open>setTreeData\<close> returns: the variable is set by then only when React
  has applied the updater during that call, and is still \<^verbatim>\<open>null\<close> otherwise.
\<close>

definition addTagUpdateFn :: "string \<Rightarrow> string \<Rightarrow> TreeNode \<Rightarrow> TreeNode" where
  "addTagUpdateFn fileId newTag n =
     (case n of
        File fileNode \<Rightarrow>
          if node_id fileNode = fileId then
            (let a = (case analysis fileNode of
                        Some a0 \<Rightarrow> a0
                      | None \<Rightarrow> \<lparr>summary = [], suggestedName = [], tags = [],
                                  documentType = ''Unknown''\<rparr>)
             in if newTag \<in> set (tags a) then File fileNode
                else File (fileNode\<lparr>analysis := Some (a\<lparr>tags := tags a @ [newTag]\<rparr>)\<rparr>))
          else n
      | Folder i nm ch p \<Rightarrow> n)"

fun updateFnCalls :: "TreeNode list \<Rightarrow> string \<Rightarrow> TreeNode list" where
  "updateFnCalls [] nodeId = []"
| "updateFnCalls (File f # rest) nodeId =
     (if node_id f = nodeId then [File f] else []) @ updateFnCalls rest nodeId"
| "updateFnCalls (Folder i n ch p # rest) nodeId =
     (if i = nodeId then [Folder i n ch p] else updateFnCalls ch nodeId)
       @ updateFnCalls rest nodeId"

definition handleAddTag :: "AppState \<Rightarrow> string \<Rightarrow> string \<Rightarrow> AppState" where
  "handleAddTag st fileId newTag =
     (let updateFn = addTagUpdateFn fileId newTag;
          assigned = [f. File f \<leftarrow> map updateFn (updateFnCalls (treeData st) fileId)];
          updatedNode = (if updaterRunsAtCall st \<and> assigned \<noteq> []
                         then Some (last assigned) else None)
      in st\<lparr>treeData := updateNodeInTree (treeData st) fileId updateFn,
             selectedFile := (case updatedNode of
                                Some u \<Rightarrow> Some u
                              | None \<Rightarrow> selectedFile st)\<rparr>)"

subsection \<open>\<^verbatim>\<open>compareImages\<close> (geminiService.ts)\<close>

text \<open>
  The body of the \<^verbatim>\<open>try\<close> block (the request and \<^verbatim>\<open>JSON.parse\<close>) is the external
  part: it yields the truth value of \<^verbatim>\<open>result.match\<close> (\<open>Inr\<close>) or throws (\<open>Inl\<close>, the
  message). The \<^verbatim>\<open>catch\<close> block logs and returns \<^verbatim>\<open>false\<close>.
\<close>

definition compareImages ::
  "(FileNode \<Rightarrow> FileNode \<Rightarrow> string + bool) \<Rightarrow> FileNode \<Rightarrow> FileNode \<Rightarrow> bool" where
  "compareImages request sourceImage targetImage =
     (case request sourceImage targetImage of
        Inr isMatch \<Rightarrow> isMatch
      | Inl msg \<Rightarrow> False)"

subsection \<open>\<^verbatim>\<open>propagateTagToSimilarImages\<close> and \<^verbatim>\<open>handlePropagateTag\<close>\<close>

text \<open>
  The scan is written against a comparator that may reject: the awaited call sits in
  a \<^verbatim>\<open>try\<close> whose \<^verbatim>\<open>catch\<close> only logs. The comparator is therefore a parameter with
  results \<open>Inr b\<close> (resolves to \<open>b\<close>) and \<open>Inl msg\<close> (rejects). \<open>scanLoop\<close> is the
  \<^verbatim>\<open>for\<close> loop over \<^verbatim>\<open>otherImages\<close>; its state is \<^verbatim>\<open>updatedCount\<close>, the JavaScript
  \<^verbatim>\<open>Set\<close> \<^verbatim>\<open>updatedImageIds\<close>, and (for observation only) the list of argument pairs of
  the comparator calls made so far.
\<close>

type_synonym comparator = "FileNode \<Rightarrow> FileNode \<Rightarrow> string + bool"

record ScanState =
  updatedCount :: nat
  updatedImageIds :: "string set"
  comparisons :: "(FileNode \<times> FileNode) list"

fun scanLoop :: "comparator \<Rightarrow> FileNode \<Rightarrow> FileNode list \<Rightarrow> ScanState \<Rightarrow> ScanState" where
  "scanLoop cmp sourceFile [] s = s"
| "scanLoop cmp sourceFile (targetFile # rest) s =
     scanLoop cmp sourceFile rest
       (let s1 = s\<lparr>comparisons := comparisons s @ [(sourceFile, targetFile)]\<rparr> in
        case cmp sourceFile targetFile of
          Inr isMatch \<Rightarrow>
            if isMatch
            then s1\<lparr>updatedCount := updatedCount s1 + 1,
                    updatedImageIds := insert (node_id targetFile) (updatedImageIds s1)\<rparr>
            else s1
        | Inl msg \<Rightarrow> s1)"

text \<open>
  \<^verbatim>\<open>Array.from(new Set(newTags))\<close>: a \<^verbatim>\<open>Set\<close> iterates in insertion order, so the
  first occurrence of each value is kept.
\<close>

fun arrayFromSet :: "'a list \<Rightarrow> 'a list \<Rightarrow> 'a list" where
  "arrayFromSet seen [] = seen"
| "arrayFromSet seen (x # xs) = arrayFromSet (if x \<in> set seen then seen else seen @ [x]) xs"

text \<open>\<^verbatim>\<open>img.analysis?.tags.includes(newTag)\<close>, \<^verbatim>\<open>undefined\<close> (falsy) without analysis.\<close>

definition hasTag :: "FileNode \<Rightarrow> string \<Rightarrow> bool" where
  "hasTag img newTag = (case analysis img of None \<Rightarrow> False | Some a \<Rightarrow> newTag \<in> set (tags a))"

fun recursivelyUpdateTags :: "string set \<Rightarrow> string \<Rightarrow> TreeNode list \<Rightarrow> TreeNode list" where
  "recursivelyUpdateTags ids newTag [] = []"
| "recursivelyUpdateTags ids newTag (File fileNode # rest) =
     (if node_id fileNode \<in> ids then
        File (fileNode\<lparr>analysis := Some
          (case analysis fileNode of
             Some a \<Rightarrow> a\<lparr>tags := arrayFromSet [] (tags a @ [newTag])\<rparr>
           | None \<Rightarrow> \<lparr>summary = [], suggestedName = [], tags = [newTag],
                       documentType = []\<rparr>)\<rparr>)
      else File fileNode)
       # recursivelyUpdateTags ids newTag rest"
| "recursivelyUpdateTags ids newTag (Folder i n ch p # rest) =
     Folder i n (recursivelyUpdateTags ids newTag ch) p
       # recursivelyUpdateTags ids newTag rest"

text \<open>
  \<^verbatim>\<open>propagateTagToSimilarImages\<close> reads the variable \<^verbatim>\<open>treeData\<close> of the render that
  created it (the argument \<open>treeData0\<close>) and writes through
  \<^verbatim>\<open>setTreeData(prevTree => ...)\<close>, which acts on the state (the argument \<open>st\<close>).
  It returns the state it leaves and the comparator calls it made. The timers that
  clear the banner after 3 and 5 seconds are outside the model.
\<close>

definition otherImagesOf :: "TreeNode list \<Rightarrow> FileNode \<Rightarrow> string \<Rightarrow> FileNode list" where
  "otherImagesOf treeData0 sourceFile newTag =
     filter (\<lambda>img. node_id img \<noteq> node_id sourceFile \<and> \<not> hasTag img newTag)
       (findAllImageFiles treeData0)"

definition propagateTagToSimilarImages ::
  "comparator \<Rightarrow> TreeNode list \<Rightarrow> AppState \<Rightarrow> FileNode \<Rightarrow> string
     \<Rightarrow> AppState \<times> (FileNode \<times> FileNode) list" where
  "propagateTagToSimilarImages cmp treeData0 st sourceFile newTag =
     (let otherImages = otherImagesOf treeData0 sourceFile newTag in
      if length otherImages = 0 then
        (st\<lparr>propagationStatus := \<lparr>running = True, message = NoOtherImages\<rparr>\<rparr>, [])
      else
        (let r = scanLoop cmp sourceFile otherImages
                   \<lparr>updatedCount = 0, updatedImageIds = {}, comparisons = []\<rparr>;
             st1 = (if updatedImageIds r \<noteq> {}
                    then st\<lparr>treeData :=
                              recursivelyUpdateTags (updatedImageIds r) newTag (treeData st)\<rparr>
                    else st)
         in (st1\<lparr>propagationStatus :=
                    \<lparr>running = True, message = TagApplied (updatedCount r)\<rparr>\<rparr>,
             comparisons r)))"

text \<open>
  \<^verbatim>\<open>handlePropagateTag\<close> belongs to the same render as the state it is called on, so
  its variable \<^verbatim>\<open>treeData\<close> is \<open>treeData st\<close>. The callback given to
  \<^verbatim>\<open>setTimeout\<close> is a closure of that render too: its \<^verbatim>\<open>findNodeInTree(treeData, fileId)\<close>
  reads the same array as the guard did, and the scan it starts reads that array
  again, while \<^verbatim>\<open>handleAddTag\<close> has replaced the state's tree in between. The second
  lookup returns what the first returned, so its last two cases are never taken.
\<close>

definition handlePropagateTag ::
  "comparator \<Rightarrow> AppState \<Rightarrow> string \<Rightarrow> string \<Rightarrow> AppState \<times> (FileNode \<times> FileNode) list" where
  "handlePropagateTag cmp st fileId tag =
     (let treeData0 = treeData st in
      case findNodeInTree treeData0 fileId of
        None \<Rightarrow> (st, [])
      | Some (Folder i n ch p) \<Rightarrow> (st, [])
      | Some (File sourceFile) \<Rightarrow>
          if \<not> isImage sourceFile then (st, [])
          else
            (let st1 = handleAddTag st fileId tag in
             case findNodeInTree treeData0 fileId of
               Some (File freshSourceFile) \<Rightarrow>
                 propagateTagToSimilarImages cmp treeData0 st1 freshSourceFile tag
             | Some (Folder i n ch p) \<Rightarrow> (st1, [])
             | None \<Rightarrow> (st1, [])))"

section \<open>Debounced saving (the \<^verbatim>\<open>useEffect\<close> on \<^verbatim>\<open>treeData\<close>)\<close>

text \<open>
  Time is counted in milliseconds. The browser keeps a table of pending timeouts:
  \<^verbatim>\<open>setTimeout\<close> adds an entry under a new id and returns the id,
  \<^verbatim>\<open>clearTimeout(id)\<close> removes the entry with that id, and nothing else removes an
  entry before it fires. An entry holds its id, the time it is due, and the
  \<^verbatim>\<open>treeData\<close> that its callback (a closure of the render that set it) will write.
  \<open>storedItems\<close> lists the values given to \<^verbatim>\<open>localStorage.setItem\<close>, oldest first;
  \<^verbatim>\<open>JSON.stringify\<close> is injective on trees and is left out.

  \<open>effectBody now tree\<close> is the function passed to \<^verbatim>\<open>useEffect\<close>, run at time \<open>now\<close> in
  a render with \<^verbatim>\<open>treeData = tree\<close>: it sets the status, sets the timeout, and returns
  the cleanup \<^verbatim>\<open>() => clearTimeout(timeoutId)\<close>, kept in the field \<open>cleanup\<close> as the id
  it will clear. \<open>runCleanup\<close> calls the cleanup of the previous run, which React does
  before it runs the effect again; \<open>saveEffect\<close> is the two in that order.
  \<open>fireDue now\<close> lets the clock reach \<open>now\<close>: every entry that is due fires, in table
  order (all delays are equal, so that is the order in which they fall due), and
  leaves the table. \<open>runSaves\<close> plays a list of effect runs, given with their times.
\<close>

record Timer =
  timerId :: nat
  dueAt :: nat
  treeToWrite :: "TreeNode list"

record SaveState =
  saveStatus :: string
  timers :: "Timer list"
  nextTimerId :: nat
  cleanup :: "nat option"
  storedItems :: "TreeNode list list"

definition setTimeout :: "nat \<Rightarrow> nat \<Rightarrow> TreeNode list \<Rightarrow> SaveState \<Rightarrow> nat \<times> SaveState" where
  "setTimeout now delay tree s =
     (nextTimerId s,
      s\<lparr>timers := timers s @ [\<lparr>timerId = nextTimerId s, dueAt = now + delay,
                                 treeToWrite = tree\<rparr>],
         nextTimerId := nextTimerId s + 1\<rparr>)"

definition clearTimeout :: "nat \<Rightarrow> SaveState \<Rightarrow> SaveState" where
  "clearTimeout i s = s\<lparr>timers := filter (\<lambda>t. timerId t \<noteq> i) (timers s)\<rparr>"

definition effectBody :: "nat \<Rightarrow> TreeNode list \<Rightarrow> SaveState \<Rightarrow> SaveState" where
  "effectBody now tree s =
     (let s1 = s\<lparr>saveStatus := ''Saving...''\<rparr>;
          (timeoutId, s2) = setTimeout now 500 tree s1
      in s2\<lparr>cleanup := Some timeoutId\<rparr>)"

definition runCleanup :: "SaveState \<Rightarrow> SaveState" where
  "runCleanup s =
     (case cleanup s of
        None \<Rightarrow> s
      | Some timeoutId \<Rightarrow> clearTimeout timeoutId s)"

definition saveEffect :: "nat \<Rightarrow> TreeNode list \<Rightarrow> SaveState \<Rightarrow> SaveState" where
  "saveEffect now tree s = effectBody now tree (runCleanup s)"

definition fireDue :: "nat \<Rightarrow> SaveState \<Rightarrow> SaveState" where
  "fireDue now s =
     (let due = filter (\<lambda>t. dueAt t \<le> now) (timers s) in
      if due = [] then s
      else s\<lparr>storedItems := storedItems s @ map treeToWrite due,
             saveStatus := ''All changes saved'',
             timers := filter (\<lambda>t. \<not> dueAt t \<le> now) (timers s)\<rparr>)"

fun runSaves :: "(nat \<times> TreeNode list) list \<Rightarrow> SaveState \<Rightarrow> SaveState" where
  "runSaves [] s = s"
| "runSaves ((now, tree) # calls) s = runSaves calls (saveEffect now tree (fireDue now s))"

text \<open>
  A list of calls lies within one debounce window when each call comes, in time order,
  less than 500 ms after the one before it, so that no timer fires in between.
\<close>

fun withinWindow :: "(nat \<times> TreeNode list) list \<Rightarrow> bool" where
  "withinWindow [] = True"
| "withinWindow [c] = True"
| "withinWindow (c # d # calls) = (fst c \<le> fst d \<and> fst d < fst c + 500 \<and> withinWindow (d # calls))"

section \<open>Vocabulary for stating properties of tags\<close>

text \<open>
  \<open>tagsOf\<close> is a file's tag sequence (empty without analysis). \<open>tagsDistinct\<close> says
  that no file of the tree has a tag twice. \<open>taggedIds T t\<close> lists, in pre-order, the
  ids of the files of \<open>T\<close> that carry \<open>t\<close>. \<open>addTagToFile\<close> and \<open>applyTagToFile\<close> name
  what \<open>addTagUpdateFn\<close> and \<open>recursivelyUpdateTags\<close> make of one file node; the
  lemmas \<open>addTagUpdateFn_File\<close> and \<open>allFiles_recursivelyUpdateTags\<close> tie them to
  the two functions.
\<close>

definition tagsOf :: "FileNode \<Rightarrow> string list" where
  "tagsOf f = (case analysis f of None \<Rightarrow> [] | Some a \<Rightarrow> tags a)"

definition tagsDistinct :: "TreeNode list \<Rightarrow> bool" where
  "tagsDistinct T = list_all (\<lambda>f. distinct (tagsOf f)) (allFiles T)"

definition taggedIds :: "TreeNode list \<Rightarrow> string \<Rightarrow> string list" where
  "taggedIds T t = map node_id (filter (\<lambda>f. hasTag f t) (allFiles T))"

definition addTagToFile :: "string \<Rightarrow> string \<Rightarrow> FileNode \<Rightarrow> FileNode" where
  "addTagToFile fileId newTag f =
     (if node_id f = fileId \<and> \<not> hasTag f newTag then
        f\<lparr>analysis := Some
          (case analysis f of
             Some a \<Rightarrow> a\<lparr>tags := tags a @ [newTag]\<rparr>
           | None \<Rightarrow> \<lparr>summary = [], suggestedName = [], tags = [newTag],
                       documentType = ''Unknown''\<rparr>)\<rparr>
      else f)"

definition applyTagToFile :: "string set \<Rightarrow> string \<Rightarrow> FileNode \<Rightarrow> FileNode" where
  "applyTagToFile ids newTag f =
     (if node_id f \<in> ids then
        f\<lparr>analysis := Some
          (case analysis f of
             Some a \<Rightarrow> a\<lparr>tags := arrayFromSet [] (tags a @ [newTag])\<rparr>
           | None \<Rightarrow> \<lparr>summary = [], suggestedName = [], tags = [newTag],
                       documentType = []\<rparr>)\<rparr>
      else f)"

section \<open>An example workspace\<close>

text \<open>
  A workspace shaped like the seed tree, with three images in the folder \<open>Images\<close>:
  \<open>a.png\<close> and \<open>b.png\<close> are not analysed, \<open>c.jpg\<close> carries an analysis with the tag
  \<open>dog\<close>. The theorems below are instantiated on it.
\<close>

definition report :: FileNode where
  "report = \<lparr>node_id = ''2'', node_name = ''report.txt'', content = ''Final report.'',
              mimeType = ''text/plain'', analysis = None,
              node_path = ''/Documents/report.txt''\<rparr>"

definition imgA :: FileNode where
  "imgA = \<lparr>node_id = ''a'', node_name = ''a.png'', content = ''QUFB'',
            mimeType = ''image/png'', analysis = None, node_path = ''/a.png''\<rparr>"

definition imgB :: FileNode where
  "imgB = \<lparr>node_id = ''b'', node_name = ''b.png'', content = ''QkJC'',
            mimeType = ''image/png'', analysis = None, node_path = ''/b.png''\<rparr>"

definition imgC :: FileNode where
  "imgC = \<lparr>node_id = ''c'', node_name = ''c.jpg'', content = ''Q0ND'',
            mimeType = ''image/jpeg'',
            analysis = Some \<lparr>summary = ''A dog on a lawn.'', suggestedName = ''dog-lawn.jpg'',
                             tags = [''dog''], documentType = ''Image''\<rparr>,
            node_path = ''/c.jpg''\<rparr>"

definition sampleTree :: "TreeNode list" where
  "sampleTree =
     [Folder ''1'' ''Documents'' [File report] ''/Documents'',
      Folder ''3'' ''Images'' [File imgA, File imgB, File imgC] ''/Images'']"

definition sampleState :: AppState where
  "sampleState = \<lparr>treeData = sampleTree, selectedFile = None, isLoading = False,
                   error = None,
                   propagationStatus = \<lparr>running = False, message = NoMessage\<rparr>,
                   updaterRunsAtCall = True\<rparr>"

text \<open>A comparator that rejects on \<open>b.png\<close> and answers yes on every other image.\<close>

definition failsOnB :: comparator where
  "failsOnB a b = (if node_id b = ''b'' then Inl ''network'' else Inr True)"

text \<open>
  A comparator that reads both images: it answers whether they have the same mime
  type. One that never finds a match.
\<close>

definition sameMime :: comparator where
  "sameMime a b = Inr (mimeType a = mimeType b)"

definition neverMatches :: comparator where
  "neverMatches a b = Inr False"

text \<open>An analyzer that resolves, one that rejects, and one whose tag list repeats a tag.\<close>

definition analyzerOk :: analyzer where
  "analyzerOk nm c m =
     Inr \<lparr>summary = ''An image.'', suggestedName = ''image.png'', tags = [''photo''],
          documentType = ''Image''\<rparr>"

definition analyzerDown :: analyzer where
  "analyzerDown nm c m =
     Inl ''Failed to get analysis from Gemini API. Please check your API key and network connection.''"

definition analyzerRepeats :: analyzer where
  "analyzerRepeats nm c m =
     Inr \<lparr>summary = ''An image.'', suggestedName = ''image.png'', tags = [''photo'', ''photo''],
          documentType = ''Image''\<rparr>"

text \<open>A workspace that holds the image \<open>a.png\<close> and nothing else.\<close>

definition soloState :: AppState where
  "soloState = \<lparr>treeData = [File imgA], selectedFile = None, isLoading = False,
                 error = None,
                 propagationStatus = \<lparr>running = False, message = NoMessage\<rparr>,
                 updaterRunsAtCall = True\<rparr>"

text \<open>The persistence state at rest: no timeout pending, nothing written yet.\<close>

definition idleSave :: SaveState where
  "idleSave = \<lparr>saveStatus = ''All changes saved'', timers = [], nextTimerId = 1,
                cleanup = None, storedItems = []\<rparr>"

section \<open>Properties of the tree helpers\<close>

lemma treeIds_simps [simp]:
  "treeIds [] = []"
  "treeIds (File f # rest) = node_id f # treeIds rest"
  "treeIds (Folder i n ch p # rest) = i # treeIds ch @ treeIds rest"
  by (simp_all add: treeIds_def)

lemma labels_simps [simp]:
  "labels [] = []"
  "labels (File f # rest) = File f # labels rest"
  "labels (Folder i n ch p # rest) = Folder i n [] p # labels ch @ labels rest"
  by (simp_all add: labels_def)

lemma idOf_shallow [simp]: "idOf (shallow x) = idOf x"
  by (cases x) simp_all

lemma map_idOf_labels: "map idOf (labels T) = treeIds T"
  by (simp add: labels_def treeIds_def)

lemma find_over_append:
  "List.find P (xs @ ys) = (case List.find P xs of Some x \<Rightarrow> Some x | None \<Rightarrow> List.find P ys)"
  by (induction xs) auto

lemma findNodeInTree_eq_find:
  "findNodeInTree T nodeId = List.find (\<lambda>x. idOf x = nodeId) (allNodes T)"
  by (induction T nodeId rule: findNodeInTree.induct)
     (auto simp: find_over_append split: option.splits)

lemma findNodeInTree_None_iff:
  "findNodeInTree T nodeId = None \<longleftrightarrow> nodeId \<notin> set (treeIds T)"
  by (induction T nodeId rule: findNodeInTree.induct) (auto split: option.splits)

lemma findNodeInTree_Some_id:
  "findNodeInTree T nodeId = Some node \<Longrightarrow> idOf node = nodeId"
  by (induction T nodeId rule: findNodeInTree.induct) (auto split: if_splits option.splits)

lemma findNodeInTree_Some_ids:
  "findNodeInTree T nodeId = Some node \<Longrightarrow> set (treeIds [node]) \<subseteq> set (treeIds T)"
proof (induction T nodeId rule: findNodeInTree.induct)
  case (1 nodeId)
  then show ?case by simp
next
  case (2 f rest nodeId)
  then show ?case by (auto split: if_splits)
next
  case (3 i n ch p rest nodeId)
  show ?case
  proof (cases "i = nodeId")
    case True
    with 3 show ?thesis by auto
  next
    case False
    show ?thesis
    proof (cases "findNodeInTree ch nodeId")
      case None
      with 3 False have "set (treeIds [node]) \<subseteq> set (treeIds rest)" by simp
      then show ?thesis by auto
    next
      case (Some found)
      with 3 False have "set (treeIds [node]) \<subseteq> set (treeIds ch)" by simp
      then show ?thesis by auto
    qed
  qed
qed

lemma removeNodeFromTree_absent:
  "nodeId \<notin> set (treeIds T) \<Longrightarrow> removeNodeFromTree T nodeId = T"
  by (induction T nodeId rule: removeNodeFromTree.induct) auto

lemma removeNodeFromTree_no_id:
  "nodeId \<notin> set (treeIds (removeNodeFromTree T nodeId))"
  by (induction T nodeId rule: removeNodeFromTree.induct) auto

lemma filter_labels_disjoint:
  "set (treeIds T) \<inter> R = {} \<Longrightarrow> filter (\<lambda>l. idOf l \<notin> R) (labels T) = labels T"
proof -
  assume "set (treeIds T) \<inter> R = {}"
  then have "\<forall>l \<in> set (labels T). idOf l \<notin> R"
    unfolding map_idOf_labels [symmetric] by auto
  then show ?thesis by simp
qed

lemma filter_labels_covered:
  "set (treeIds T) \<subseteq> R \<Longrightarrow> filter (\<lambda>l. idOf l \<notin> R) (labels T) = []"
proof -
  assume "set (treeIds T) \<subseteq> R"
  then have "\<forall>l \<in> set (labels T). idOf l \<in> R"
    unfolding map_idOf_labels [symmetric] by auto
  then show ?thesis by (simp add: filter_empty_conv)
qed


lemma removeNodeFromTree_labels:
  "distinct (treeIds T) \<Longrightarrow> findNodeInTree T nodeId = Some node \<Longrightarrow>
   labels (removeNodeFromTree T nodeId)
     = filter (\<lambda>l. idOf l \<notin> set (treeIds [node])) (labels T)"
proof (induction T nodeId rule: removeNodeFromTree.induct)
  case (1 nodeId)
  then show ?case by simp
next
  case (2 f rest nodeId)
  show ?case
  proof (cases "node_id f = nodeId")
    case True
    with 2 have node: "node = File f" by simp
    from 2 True have absent: "nodeId \<notin> set (treeIds rest)" by simp
    have b: "filter (\<lambda>l. idOf l \<notin> set (treeIds [node])) (labels rest) = labels rest"
      by (rule filter_labels_disjoint) (use node True absent in auto)
    show ?thesis
      using True node absent b
      by (simp add: removeNodeFromTree_absent)
  next
    case False
    with 2 have found: "findNodeInTree rest nodeId = Some node" by simp
    from 2 have d: "distinct (treeIds rest)" and nf: "node_id f \<notin> set (treeIds rest)" by simp_all
    from findNodeInTree_Some_ids [OF found] nf
    have "node_id f \<notin> set (treeIds [node])" by auto
    with 2 False found d show ?thesis by simp
  qed
next
  case (3 i n ch p rest nodeId)
  from 3 have dch: "distinct (treeIds ch)" and drest: "distinct (treeIds rest)"
    and disj: "set (treeIds ch) \<inter> set (treeIds rest) = {}"
    and i1: "i \<notin> set (treeIds ch)" and i2: "i \<notin> set (treeIds rest)" by auto
  show ?case
  proof (cases "i = nodeId")
    case True
    with 3 have node: "node = Folder i n ch p" by simp
    have absent: "nodeId \<notin> set (treeIds rest)" using True i2 by simp
    have a: "filter (\<lambda>l. idOf l \<notin> set (treeIds [node])) (labels ch) = []"
      by (rule filter_labels_covered) (auto simp: node)
    have b: "filter (\<lambda>l. idOf l \<notin> set (treeIds [node])) (labels rest) = labels rest"
      by (rule filter_labels_disjoint) (use node disj i2 in auto)
    show ?thesis using True absent a b node
      by (simp add: removeNodeFromTree_absent)
  next
    case False
    show ?thesis
    proof (cases "findNodeInTree ch nodeId")
      case None
      with 3 False have found: "findNodeInTree rest nodeId = Some node" by simp
      from None have "nodeId \<notin> set (treeIds ch)" by (simp add: findNodeInTree_None_iff)
      then have rch: "removeNodeFromTree ch nodeId = ch" by (rule removeNodeFromTree_absent)
      have sub: "set (treeIds [node]) \<subseteq> set (treeIds rest)"
        by (rule findNodeInTree_Some_ids [OF found])
      have a: "filter (\<lambda>l. idOf l \<notin> set (treeIds [node])) (labels ch) = labels ch"
        by (rule filter_labels_disjoint) (use sub disj in auto)
      have b: "i \<notin> set (treeIds [node])" using sub i2 by auto
      from 3(3) [OF False drest found] a b rch False show ?thesis by simp
    next
      case (Some found')
      with 3 False have found: "findNodeInTree ch nodeId = Some node" by simp
      then have "nodeId \<in> set (treeIds ch)"
        using findNodeInTree_None_iff [of ch nodeId] by auto
      with disj have "nodeId \<notin> set (treeIds rest)" by auto
      then have rrest: "removeNodeFromTree rest nodeId = rest" by (rule removeNodeFromTree_absent)
      have sub: "set (treeIds [node]) \<subseteq> set (treeIds ch)"
        by (rule findNodeInTree_Some_ids [OF found])
      have a: "filter (\<lambda>l. idOf l \<notin> set (treeIds [node])) (labels rest) = labels rest"
        by (rule filter_labels_disjoint) (use sub disj in auto)
      have b: "i \<notin> set (treeIds [node])" using sub i1 by auto
      from 3(2) [OF False dch found] a b rrest False show ?thesis by simp
    qed
  qed
qed

lemma updateNodeInTree_absent:
  "nodeId \<notin> set (treeIds T) \<Longrightarrow> updateNodeInTree T nodeId updateFn = T"
  by (induction T nodeId updateFn rule: updateNodeInTree.induct) auto

lemma subseq_labels_remove:
  "subseq (labels (removeNodeFromTree T nodeId)) (labels T)"
proof (induction T nodeId rule: removeNodeFromTree.induct)
  case (1 nodeId)
  then show ?case by simp
next
  case (2 f rest nodeId)
  then show ?case by (auto intro: subseq_Cons')
next
  case (3 i n ch p rest nodeId)
  show ?case
  proof (cases "i = nodeId")
    case True
    have "subseq (labels (removeNodeFromTree rest nodeId)) (labels ch @ labels rest)"
      using 3(1) [OF True] by (rule list_emb_append2)
    then show ?thesis using True by (auto intro: subseq_Cons')
  next
    case False
    have "subseq (labels (removeNodeFromTree ch nodeId) @ labels (removeNodeFromTree rest nodeId))
            (labels ch @ labels rest)"
      using 3(2) [OF False] 3(3) [OF False] by (rule list_emb_append_mono)
    then show ?thesis using False by simp
  qed
qed

section \<open>Removal (claim C5)\<close>

text \<open>
  C5. For every tree \<open>T\<close> and id \<open>nodeId\<close>: after \<open>removeNodeFromTree T nodeId\<close> a search
  for \<open>nodeId\<close> finds nothing, and the pre-order listing of the result is a subsequence
  of that of \<open>T\<close>. When the ids of \<open>T\<close> are unique and \<open>nodeId\<close> resolves to
  \<open>node\<close>, the pre-order listing of the result is the pre-order listing of \<open>T\<close> with
  exactly \<open>node\<close> and every node below it left out: a removed folder takes its whole
  subtree with it, and all remaining nodes keep their own fields and their relative
  order. When \<open>nodeId\<close> is absent the tree is returned as it is.
\<close>

theorem removeNodeFromTree_correct:
  "findNodeInTree (removeNodeFromTree T nodeId) nodeId = None
   \<and> subseq (labels (removeNodeFromTree T nodeId)) (labels T)
   \<and> (distinct (treeIds T) \<and> findNodeInTree T nodeId = Some node \<longrightarrow>
        labels (removeNodeFromTree T nodeId)
          = filter (\<lambda>l. idOf l \<notin> set (treeIds [node])) (labels T))
   \<and> (findNodeInTree T nodeId = None \<longrightarrow> removeNodeFromTree T nodeId = T)"
  by (simp add: findNodeInTree_None_iff removeNodeFromTree_no_id subseq_labels_remove
        removeNodeFromTree_labels removeNodeFromTree_absent)

theorem removeNodeFromTree_correct_witness:
  "distinct (treeIds sampleTree)
   \<and> findNodeInTree sampleTree ''3'' = Some (Folder ''3'' ''Images'' [File imgA, File imgB, File imgC] ''/Images'')
   \<and> findNodeInTree (removeNodeFromTree sampleTree ''3'') ''3'' = None
   \<and> labels (removeNodeFromTree sampleTree ''3'')
        = [Folder ''1'' ''Documents'' [] ''/Documents'', File report]
   \<and> findNodeInTree sampleTree ''zz'' = None
   \<and> removeNodeFromTree sampleTree ''zz'' = sampleTree"
  using removeNodeFromTree_correct
          [of sampleTree "''3''" "Folder ''3'' ''Images'' [File imgA, File imgB, File imgC] ''/Images''"]
        removeNodeFromTree_correct [of sampleTree "''zz''"]
  by (simp add: sampleTree_def report_def imgA_def imgB_def imgC_def)

section \<open>Update of an absent id (claim C6)\<close>

text \<open>
  C6. For every tree \<open>T\<close>, every id \<open>nodeId\<close> that no node of \<open>T\<close> carries and every
  transform \<open>updateFn\<close>, \<open>updateNodeInTree T nodeId updateFn\<close> is \<open>T\<close> itself.
\<close>

theorem updateNodeInTree_absent_identity:
  "nodeId \<notin> set (treeIds T) \<Longrightarrow> updateNodeInTree T nodeId updateFn = T"
  by (rule updateNodeInTree_absent)

theorem updateNodeInTree_absent_identity_witness:
  "''zz'' \<notin> set (treeIds sampleTree)
   \<and> updateNodeInTree sampleTree ''zz'' (\<lambda>n. File imgA) = sampleTree"
  using updateNodeInTree_absent_identity [of "''zz''" sampleTree "\<lambda>n. File imgA"]
  by (simp add: sampleTree_def report_def imgA_def imgB_def imgC_def)

section \<open>The comparison scan\<close>

lemma scanLoop_comparisons:
  "comparisons (scanLoop cmp src cs s) = comparisons s @ map (Pair src) cs"
  by (induction cs arbitrary: s) (simp_all add: Let_def split: sum.splits)

lemma scanLoop_updatedImageIds:
  "updatedImageIds (scanLoop cmp src cs s)
     = updatedImageIds s \<union> node_id ` {c \<in> set cs. cmp src c = Inr True}"
  by (induction cs arbitrary: s) (auto simp: Let_def split: sum.splits)

lemma scanLoop_updatedCount:
  "updatedCount (scanLoop cmp src cs s)
     = updatedCount s + length (filter (\<lambda>c. cmp src c = Inr True) cs)"
  by (induction cs arbitrary: s) (auto simp: Let_def split: sum.splits)

lemma scanLoop_absorb:
  "scanLoop (\<lambda>a b. Inr (cmp a b = Inr True)) src cs s = scanLoop cmp src cs s"
  by (induction cs arbitrary: s) (auto simp: Let_def split: sum.splits)

lemma propagate_absorb:
  "propagateTagToSimilarImages (\<lambda>a b. Inr (cmp a b = Inr True)) T0 st src tag
     = propagateTagToSimilarImages cmp T0 st src tag"
  by (simp add: propagateTagToSimilarImages_def scanLoop_absorb Let_def)

lemma handlePropagateTag_absorb:
  "handlePropagateTag (\<lambda>a b. Inr (cmp a b = Inr True)) st fileId tag
     = handlePropagateTag cmp st fileId tag"
  by (simp add: handlePropagateTag_def propagate_absorb Let_def
        split: option.splits TreeNode.splits)

lemma compareImages_total:
  "compareImages request src c = (request src c = Inr True)"
  by (simp add: compareImages_def split: sum.splits)

lemmas sample_defs =
  sampleState_def sampleTree_def report_def imgA_def imgB_def imgC_def

lemmas propagate_defs =
  handlePropagateTag_def propagateTagToSimilarImages_def otherImagesOf_def hasTag_def
  handleAddTag_def addTagUpdateFn_def isImage_def Let_def

section \<open>Comparator failures stay local (claim C3)\<close>

text \<open>
  C3. A comparator call that rejects counts as "no match" for its candidate and for
  nothing else. The run with a comparator \<open>cmp\<close> is the run with the comparator that
  answers \<open>False\<close> wherever \<open>cmp\<close> rejects: same final state, same calls. The loop
  calls the comparator once for every candidate, in order, whatever the outcomes;
  the ids it collects are those of the candidates answered \<open>True\<close>, and the count is
  their number. \<^verbatim>\<open>compareImages\<close> of the service itself never rejects: it answers
  \<open>True\<close> exactly when the request succeeds with a match.
\<close>

theorem comparator_failure_local:
  "handlePropagateTag cmp st fileId tag
     = handlePropagateTag (\<lambda>a b. Inr (cmp a b = Inr True)) st fileId tag
   \<and> comparisons (scanLoop cmp src cs s) = comparisons s @ map (Pair src) cs
   \<and> updatedImageIds (scanLoop cmp src cs s)
       = updatedImageIds s \<union> node_id ` {c \<in> set cs. cmp src c = Inr True}
   \<and> updatedCount (scanLoop cmp src cs s)
       = updatedCount s + length (filter (\<lambda>c. cmp src c = Inr True) cs)
   \<and> compareImages request src c = (request src c = Inr True)"
  by (simp add: handlePropagateTag_absorb scanLoop_comparisons
        scanLoop_updatedImageIds scanLoop_updatedCount compareImages_total)

theorem comparator_failure_local_witness:
  "failsOnB imgA imgB = Inl ''network''
   \<and> handlePropagateTag failsOnB sampleState ''a'' ''cat''
       = handlePropagateTag (\<lambda>a b. Inr (failsOnB a b = Inr True)) sampleState ''a'' ''cat''
   \<and> snd (handlePropagateTag failsOnB sampleState ''a'' ''cat'')
       = [(imgA, imgB), (imgA, imgC)]
   \<and> message (propagationStatus (fst (handlePropagateTag failsOnB sampleState ''a'' ''cat'')))
       = TagApplied 1"
  using comparator_failure_local [of failsOnB sampleState "''a''" "''cat''"]
  by (simp add: propagate_defs sample_defs failsOnB_def)

section \<open>The guard of \<^verbatim>\<open>handlePropagateTag\<close> (claim C10)\<close>

text \<open>
  C10. When the id given to \<open>handlePropagateTag\<close> is absent from the tree, names a
  folder, or names a file whose mime type does not start with \<open>image/\<close>, the handler
  returns the state it was given (tree, selection and banner untouched) and calls the
  comparator not once.
\<close>

theorem handlePropagateTag_guard:
  assumes "findNodeInTree (treeData st) fileId = None
           \<or> (\<exists>i n ch p. findNodeInTree (treeData st) fileId = Some (Folder i n ch p))
           \<or> (\<exists>f. findNodeInTree (treeData st) fileId = Some (File f) \<and> \<not> isImage f)"
  shows "handlePropagateTag cmp st fileId tag = (st, [])"
  using assms by (auto simp: handlePropagateTag_def)

theorem handlePropagateTag_guard_witness:
  "findNodeInTree (treeData sampleState) ''zz'' = None
   \<and> handlePropagateTag (\<lambda>a b. Inr True) sampleState ''zz'' ''cat'' = (sampleState, [])
   \<and> findNodeInTree (treeData sampleState) ''1''
        = Some (Folder ''1'' ''Documents'' [File report] ''/Documents'')
   \<and> handlePropagateTag (\<lambda>a b. Inr True) sampleState ''1'' ''cat'' = (sampleState, [])
   \<and> findNodeInTree (treeData sampleState) ''2'' = Some (File report)
   \<and> \<not> isImage report
   \<and> handlePropagateTag (\<lambda>a b. Inr True) sampleState ''2'' ''cat'' = (sampleState, [])"
  using handlePropagateTag_guard [of sampleState "''zz''" "\<lambda>a b. Inr True" "''cat''"]
        handlePropagateTag_guard [of sampleState "''1''" "\<lambda>a b. Inr True" "''cat''"]
        handlePropagateTag_guard [of sampleState "''2''" "\<lambda>a b. Inr True" "''cat''"]
  by (simp add: sample_defs isImage_def)

section \<open>Which source node the scan consumes (claim C2)\<close>

text \<open>
  Every comparator call of a run receives, as its source, the node that
  \<open>findNodeInTree\<close> finds in the tree as it was when the handler was called, that is
  before \<open>handleAddTag\<close> ran.
\<close>

lemma comparisons_source_is_snapshot:
  "(a, b) \<in> set (snd (handlePropagateTag cmp st fileId tag)) \<Longrightarrow>
   findNodeInTree (treeData st) fileId = Some (File a)"
  by (auto simp: handlePropagateTag_def propagateTagToSimilarImages_def Let_def
        scanLoop_comparisons split: option.splits TreeNode.splits if_splits)

text \<open>
  C2, evaluated on the example workspace with source \<open>a.png\<close> and tag \<open>cat\<close>: the
  tag-add has put \<open>cat\<close> on the tree's node \<open>a\<close>, yet both comparator calls receive
  \<open>imgA\<close> as it was before, without the tag.
\<close>

theorem scan_consumes_untagged_source:
  "snd (handlePropagateTag (\<lambda>a b. Inr True) sampleState ''a'' ''cat'')
     = [(imgA, imgB), (imgA, imgC)]
   \<and> \<not> hasTag imgA ''cat''
   \<and> findNodeInTree (treeData (handleAddTag sampleState ''a'' ''cat'')) ''a''
       = Some (File (imgA\<lparr>analysis := Some \<lparr>summary = [], suggestedName = [],
                                             tags = [''cat''], documentType = ''Unknown''\<rparr>\<rparr>))"
  by (simp add: propagate_defs sample_defs)

section \<open>Analysis requests (claims C7 and C8)\<close>

lemma findNodeInTree_update:
  "(\<And>x. idOf (g x) = idOf x) \<Longrightarrow>
   findNodeInTree (updateNodeInTree T nodeId g) nodeId = map_option g (findNodeInTree T nodeId)"
proof (induction T nodeId g rule: updateNodeInTree.induct)
  case (1 nodeId updateFn)
  then show ?case by simp
next
  case (2 f rest nodeId updateFn)
  show ?case
  proof (cases "node_id f = nodeId")
    case True
    have "idOf (updateFn (File f)) = nodeId" using 2(2) [of "File f"] True by simp
    then show ?thesis using True by (cases "updateFn (File f)") simp_all
  next
    case False
    then show ?thesis using 2 by simp
  qed
next
  case (3 i n ch p rest nodeId updateFn)
  show ?case
  proof (cases "i = nodeId")
    case True
    have "idOf (updateFn (Folder i n ch p)) = nodeId"
      using 3(3) [of "Folder i n ch p"] True by simp
    then show ?thesis using True by (cases "updateFn (Folder i n ch p)") simp_all
  next
    case False
    then show ?thesis using 3 by (simp split: option.splits)
  qed
qed

lemma idOf_updateAnalysis [simp]: "idOf (updateAnalysis i a x) = idOf x"
  by (cases x) simp_all

text \<open>
  C7. A request for a node that carries an analysis leaves the tree as it is, makes
  the node (with its cached analysis) the selected file, clears the error and does
  not call the analyzer. In particular, of two requests for the same file made one
  after the other, the second being made with the file's node of the tree at that
  time, only the first calls the analyzer: when the first call resolves with \<open>a\<close>,
  the tree's node for the file carries \<open>a\<close> and the second request calls nothing.
\<close>

theorem handleSelectNode_cached:
  "(analysis node = Some a \<longrightarrow>
      handleSelectNode analyzeFile st node
        = (st\<lparr>selectedFile := Some node, error := None\<rparr>, []))
   \<and> (findNodeInTree (treeData st) (node_id f) = Some (File f) \<and> analysis f = None
        \<and> analyzeFile (node_name f) (content f) (mimeType f) = Inr a \<longrightarrow>
        snd (handleSelectNode analyzeFile st f) = [(node_name f, content f, mimeType f)]
        \<and> findNodeInTree (treeData (fst (handleSelectNode analyzeFile st f))) (node_id f)
            = Some (File (f\<lparr>analysis := Some a\<rparr>))
        \<and> snd (handleSelectNode analyzeFile (fst (handleSelectNode analyzeFile st f))
                  (f\<lparr>analysis := Some a\<rparr>)) = [])"
  by (auto simp: handleSelectNode_def Let_def findNodeInTree_update)

theorem handleSelectNode_cached_witness:
  "analysis imgC = Some \<lparr>summary = ''A dog on a lawn.'', suggestedName = ''dog-lawn.jpg'',
                         tags = [''dog''], documentType = ''Image''\<rparr>
   \<and> handleSelectNode analyzerDown sampleState imgC
       = (sampleState\<lparr>selectedFile := Some imgC\<rparr>, [])
   \<and> findNodeInTree (treeData sampleState) (node_id imgA) = Some (File imgA)
   \<and> analysis imgA = None
   \<and> snd (handleSelectNode analyzerOk sampleState imgA) = [(''a.png'', ''QUFB'', ''image/png'')]
   \<and> snd (handleSelectNode analyzerOk (fst (handleSelectNode analyzerOk sampleState imgA))
        (imgA\<lparr>analysis := Some \<lparr>summary = ''An image.'', suggestedName = ''image.png'',
                                  tags = [''photo''], documentType = ''Image''\<rparr>\<rparr>)) = []"
  using handleSelectNode_cached
          [where node = imgC and analyzeFile = analyzerDown and st = sampleState
             and a = "\<lparr>summary = ''A dog on a lawn.'', suggestedName = ''dog-lawn.jpg'',
                       tags = [''dog''], documentType = ''Image''\<rparr>"]
        handleSelectNode_cached
          [where f = imgA and analyzeFile = analyzerOk and st = sampleState
             and a = "\<lparr>summary = ''An image.'', suggestedName = ''image.png'',
                       tags = [''photo''], documentType = ''Image''\<rparr>"]
  by (simp add: sample_defs analyzerOk_def analyzerDown_def)

text \<open>
  C8. When the analyzer rejects a request for a node without analysis, the tree is
  the tree from before (so no node has gained an analysis), the error cell holds the
  message of the rejection (or the fallback text when that message is empty), and
  the loading flag is cleared. The analyzer was called once. A further request for
  the node calls the analyzer again, whatever analyzer \<open>analyzeFile'\<close> is then in
  place, and if that call resolves the analysis is attached to the unchanged tree.
\<close>

theorem handleSelectNode_failure:
  assumes "analysis node = None"
    and "analyzeFile (node_name node) (content node) (mimeType node) = Inl msg"
  shows "treeData (fst (handleSelectNode analyzeFile st node)) = treeData st
         \<and> error (fst (handleSelectNode analyzeFile st node))
             = Some (if msg = [] then ''Failed to analyze the file. An unknown error occurred.''
                     else msg)
         \<and> isLoading (fst (handleSelectNode analyzeFile st node)) = False
         \<and> snd (handleSelectNode analyzeFile st node)
             = [(node_name node, content node, mimeType node)]
         \<and> snd (handleSelectNode analyzeFile' (fst (handleSelectNode analyzeFile st node)) node)
             = [(node_name node, content node, mimeType node)]
         \<and> (analyzeFile' (node_name node) (content node) (mimeType node) = Inr a \<longrightarrow>
              treeData (fst (handleSelectNode analyzeFile'
                               (fst (handleSelectNode analyzeFile st node)) node))
               = updateNodeInTree (treeData st) (node_id node) (updateAnalysis (node_id node) a))"
  using assms by (auto simp: handleSelectNode_def Let_def split: sum.splits)

theorem handleSelectNode_failure_witness:
  "analysis imgA = None
   \<and> analyzerDown (node_name imgA) (content imgA) (mimeType imgA)
       = Inl ''Failed to get analysis from Gemini API. Please check your API key and network connection.''
   \<and> treeData (fst (handleSelectNode analyzerDown sampleState imgA)) = sampleTree
   \<and> error (fst (handleSelectNode analyzerDown sampleState imgA))
       = Some ''Failed to get analysis from Gemini API. Please check your API key and network connection.''
   \<and> snd (handleSelectNode analyzerOk (fst (handleSelectNode analyzerDown sampleState imgA)) imgA)
       = [(''a.png'', ''QUFB'', ''image/png'')]
   \<and> analyzerOk (node_name imgA) (content imgA) (mimeType imgA)
       = Inr \<lparr>summary = ''An image.'', suggestedName = ''image.png'', tags = [''photo''],
              documentType = ''Image''\<rparr>
   \<and> findNodeInTree
        (treeData (fst (handleSelectNode analyzerOk
                          (fst (handleSelectNode analyzerDown sampleState imgA)) imgA))) ''a''
       = Some (File (imgA\<lparr>analysis := Some \<lparr>summary = ''An image.'',
            suggestedName = ''image.png'', tags = [''photo''], documentType = ''Image''\<rparr>\<rparr>))"
  using handleSelectNode_failure
          [where node = imgA and analyzeFile = analyzerDown and st = sampleState
             and analyzeFile' = analyzerOk
             and msg = "''Failed to get analysis from Gemini API. Please check your API key and network connection.''"
             and a = "\<lparr>summary = ''An image.'', suggestedName = ''image.png'',
                       tags = [''photo''], documentType = ''Image''\<rparr>"]
  by (simp add: sample_defs analyzerOk_def analyzerDown_def)


section \<open>Tag sequences stay duplicate-free (towards claim C4)\<close>

lemma allFiles_append_hd: "allFiles (x # rest) = allFiles [x] @ allFiles rest"
  by (cases x) simp_all

lemma arrayFromSet_set: "set (arrayFromSet seen xs) = set seen \<union> set xs"
  by (induction xs arbitrary: seen) auto

lemma arrayFromSet_distinct: "distinct seen \<Longrightarrow> distinct (arrayFromSet seen xs)"
  by (induction xs arbitrary: seen) auto

lemma addTagUpdateFn_File:
  "addTagUpdateFn fileId newTag (File f) = File (addTagToFile fileId newTag f)"
  by (auto simp: addTagUpdateFn_def addTagToFile_def hasTag_def Let_def split: option.splits)

lemma addTagUpdateFn_Folder:
  "addTagUpdateFn fileId newTag (Folder i n ch p) = Folder i n ch p"
  by (simp add: addTagUpdateFn_def)

lemma allFiles_recursivelyUpdateTags:
  "allFiles (recursivelyUpdateTags ids newTag T) = map (applyTagToFile ids newTag) (allFiles T)"
  by (induction ids newTag T rule: recursivelyUpdateTags.induct)
     (auto simp: applyTagToFile_def)

lemma treeIds_recursivelyUpdateTags:
  "treeIds (recursivelyUpdateTags ids newTag T) = treeIds T"
  by (induction ids newTag T rule: recursivelyUpdateTags.induct) auto

lemma treeIds_addTag:
  "treeIds (updateNodeInTree T fileId (addTagUpdateFn fileId newTag)) = treeIds T"
  by (induction T fileId "addTagUpdateFn fileId newTag" rule: updateNodeInTree.induct)
     (auto simp: addTagUpdateFn_File addTagUpdateFn_Folder addTagToFile_def)

lemma allFiles_update_induct:
  "list_all P (allFiles T) \<Longrightarrow>
   \<forall>f. P f \<longrightarrow> list_all P (allFiles [g (File f)]) \<Longrightarrow>
   \<forall>i n ch p. list_all P (allFiles ch) \<longrightarrow> list_all P (allFiles [g (Folder i n ch p)]) \<Longrightarrow>
   list_all P (allFiles (updateNodeInTree T nodeId g))"
proof (induction T nodeId g rule: updateNodeInTree.induct)
  case (1 nodeId updateFn)
  then show ?case by simp
next
  case (2 f rest nodeId updateFn)
  from 2(2) have Pf: "P f" and Prest: "list_all P (allFiles rest)" by simp_all
  have IH: "list_all P (allFiles (updateNodeInTree rest nodeId updateFn))"
    by (rule 2(1) [OF Prest 2(3) 2(4)])
  have here: "list_all P (allFiles [updateFn (File f)])" using 2(3) Pf by simp
  show ?case using IH Pf here
    by (simp add: allFiles_append_hd [of _ "updateNodeInTree rest nodeId updateFn"])
next
  case (3 i n ch p rest nodeId updateFn)
  from 3(3) have Pch: "list_all P (allFiles ch)" and Prest: "list_all P (allFiles rest)"
    by simp_all
  have IHrest: "list_all P (allFiles (updateNodeInTree rest nodeId updateFn))"
    by (rule 3(2) [OF Prest 3(4) 3(5)])
  show ?case
  proof (cases "i = nodeId")
    case True
    have here: "list_all P (allFiles [updateFn (Folder i n ch p)])" using 3(5) Pch by simp
    show ?thesis using True IHrest here
      by (simp add: allFiles_append_hd [of _ "updateNodeInTree rest nodeId updateFn"])
  next
    case False
    have "list_all P (allFiles (updateNodeInTree ch nodeId updateFn))"
      by (rule 3(1) [OF False Pch 3(4) 3(5)])
    then show ?thesis using False IHrest by simp
  qed
qed

lemma allFiles_subset_update:
  assumes "\<And>f. P f \<Longrightarrow> list_all P (allFiles [g (File f)])"
    and "\<And>i n ch p. list_all P (allFiles ch) \<Longrightarrow> list_all P (allFiles [g (Folder i n ch p)])"
    and "list_all P (allFiles T)"
  shows "list_all P (allFiles (updateNodeInTree T nodeId g))"
  using assms by (intro allFiles_update_induct) simp_all

lemma distinct_tagsOf_addTagToFile:
  "distinct (tagsOf f) \<Longrightarrow> distinct (tagsOf (addTagToFile fileId newTag f))"
  by (auto simp: addTagToFile_def tagsOf_def hasTag_def split: option.splits)

lemma distinct_tagsOf_applyTagToFile:
  "distinct (tagsOf f) \<Longrightarrow> distinct (tagsOf (applyTagToFile ids newTag f))"
  by (auto simp: applyTagToFile_def tagsOf_def arrayFromSet_distinct split: option.splits)

lemma tagsDistinct_addTag:
  "tagsDistinct T \<Longrightarrow> tagsDistinct (updateNodeInTree T fileId (addTagUpdateFn fileId newTag))"
  unfolding tagsDistinct_def
  by (rule allFiles_subset_update)
     (simp_all add: addTagUpdateFn_File addTagUpdateFn_Folder distinct_tagsOf_addTagToFile)

lemma tagsDistinct_handleAddTag:
  "tagsDistinct (treeData st) \<Longrightarrow> tagsDistinct (treeData (handleAddTag st fileId newTag))"
  by (simp add: handleAddTag_def Let_def tagsDistinct_addTag)

lemma tagsDistinct_recursivelyUpdateTags:
  "tagsDistinct T \<Longrightarrow> tagsDistinct (recursivelyUpdateTags ids newTag T)"
  unfolding tagsDistinct_def allFiles_recursivelyUpdateTags
  by (simp add: list_all_iff distinct_tagsOf_applyTagToFile)

lemma tagsDistinct_updateAnalysis:
  "tagsDistinct T \<Longrightarrow> distinct (tags a) \<Longrightarrow>
   tagsDistinct (updateNodeInTree T nodeId (updateAnalysis nodeId a))"
  unfolding tagsDistinct_def
  by (rule allFiles_subset_update) (simp_all add: tagsOf_def)

lemma tagsDistinct_propagate:
  "tagsDistinct (treeData st) \<Longrightarrow>
   tagsDistinct (treeData (fst (propagateTagToSimilarImages cmp T0 st src newTag)))"
  by (simp add: propagateTagToSimilarImages_def Let_def tagsDistinct_recursivelyUpdateTags)

lemma tagsDistinct_handlePropagateTag:
  "tagsDistinct (treeData st) \<Longrightarrow>
   tagsDistinct (treeData (fst (handlePropagateTag cmp st fileId newTag)))"
  by (auto simp: handlePropagateTag_def Let_def tagsDistinct_propagate tagsDistinct_handleAddTag
      split: option.splits TreeNode.splits)

lemma tagsDistinct_handleSelectNode:
  "tagsDistinct (treeData st) \<Longrightarrow>
   (\<And>a. analyzeFile (node_name node) (content node) (mimeType node) = Inr a \<Longrightarrow> distinct (tags a)) \<Longrightarrow>
   tagsDistinct (treeData (fst (handleSelectNode analyzeFile st node)))"
  by (auto simp: handleSelectNode_def Let_def tagsDistinct_updateAnalysis
      split: option.splits sum.splits)

lemma tagsDistinct_repeat:
  "tagsDistinct (treeData st) \<Longrightarrow>
   tagsDistinct (treeData (((\<lambda>s. handleAddTag s fileId newTag) ^^ k) st))"
  by (induction k) (simp_all add: tagsDistinct_handleAddTag)

section \<open>Debounced saving (claim C9)\<close>

lemma fireDue_none_due:
  "\<forall>t \<in> set (timers s). now < dueAt t \<Longrightarrow> fireDue now s = s"
proof -
  assume "\<forall>t \<in> set (timers s). now < dueAt t"
  then have "filter (\<lambda>t. dueAt t \<le> now) (timers s) = []"
    by (auto simp: filter_empty_conv)
  then show ?thesis by (simp add: fireDue_def)
qed

lemma saveEffect_supersedes:
  assumes "timers s = [] \<or> (\<exists>t. timers s = [t] \<and> cleanup s = Some (timerId t))"
  shows "timers (saveEffect now tree s)
           = [\<lparr>timerId = nextTimerId s, dueAt = now + 500, treeToWrite = tree\<rparr>]
       \<and> cleanup (saveEffect now tree s) = Some (nextTimerId s)
       \<and> storedItems (saveEffect now tree s) = storedItems s"
  using assms
  by (auto simp: saveEffect_def effectBody_def runCleanup_def clearTimeout_def setTimeout_def
        split: option.splits)

lemma runSaves_window:
  "calls \<noteq> [] \<Longrightarrow> withinWindow calls \<Longrightarrow>
   timers s = [] \<or> (\<exists>t. timers s = [t] \<and> cleanup s = Some (timerId t)
                         \<and> fst (hd calls) < dueAt t) \<Longrightarrow>
   storedItems (runSaves calls s) = storedItems s
   \<and> map (\<lambda>t. (dueAt t, treeToWrite t)) (timers (runSaves calls s))
       = [(fst (last calls) + 500, snd (last calls))]"
proof (induction calls arbitrary: s rule: withinWindow.induct)
  case 1
  then show ?case by simp
next
  case (2 c)
  obtain now tr where c: "c = (now, tr)" by (cases c)
  from 2(3) c have quiet: "fireDue now s = s" by (intro fireDue_none_due) auto
  from 2(3) have "timers s = [] \<or> (\<exists>t. timers s = [t] \<and> cleanup s = Some (timerId t))"
    by auto
  from saveEffect_supersedes [OF this, of now tr] show ?case by (simp add: c quiet)
next
  case (3 c d calls)
  obtain now tr where c: "c = (now, tr)" by (cases c)
  from 3(4) c have quiet: "fireDue now s = s" by (intro fireDue_none_due) auto
  from 3(4) have "timers s = [] \<or> (\<exists>t. timers s = [t] \<and> cleanup s = Some (timerId t))"
    by auto
  note step = saveEffect_supersedes [OF this, of now tr]
  let ?s' = "saveEffect now tr s"
  from 3(3) c have near: "fst d < now + 500" and w: "withinWindow (d # calls)" by simp_all
  have ok: "timers ?s' = [] \<or> (\<exists>t. timers ?s' = [t] \<and> cleanup ?s' = Some (timerId t)
                                   \<and> fst (hd (d # calls)) < dueAt t)"
    using step near by simp
  have "storedItems (runSaves (d # calls) ?s') = storedItems ?s'
        \<and> map (\<lambda>t. (dueAt t, treeToWrite t)) (timers (runSaves (d # calls) ?s'))
            = [(fst (last (d # calls)) + 500, snd (last (d # calls)))]"
    by (rule 3(1)) (use w ok in simp_all)
  then show ?case using step by (simp add: c quiet)
qed

text \<open>
  C9. Take one or more runs of the save effect, each less than 500 ms after the one
  before it, starting with no timeout pending. While they run nothing is written,
  and afterwards the table holds one entry: each run's cleanup has cleared the entry
  of the run before it, and the entry left is due 500 ms after the last run and
  writes the tree of the last run. When the clock reaches that time the entry fires:
  exactly one value is appended to what \<^verbatim>\<open>localStorage.setItem\<close> has received, the
  tree of the last run, and the table is empty; before that time nothing is appended.
  The trees of the earlier runs are never written.
\<close>

theorem debounce_single_write:
  assumes "calls \<noteq> []" and "withinWindow calls" and "timers s = []"
  shows "storedItems (runSaves calls s) = storedItems s
         \<and> map (\<lambda>t. (dueAt t, treeToWrite t)) (timers (runSaves calls s))
             = [(fst (last calls) + 500, snd (last calls))]
         \<and> storedItems (fireDue now (runSaves calls s))
             = (if fst (last calls) + 500 \<le> now then storedItems s @ [snd (last calls)]
                else storedItems s)
         \<and> timers (fireDue now (runSaves calls s))
             = (if fst (last calls) + 500 \<le> now then [] else timers (runSaves calls s))"
proof -
  have run: "storedItems (runSaves calls s) = storedItems s
       \<and> map (\<lambda>t. (dueAt t, treeToWrite t)) (timers (runSaves calls s))
           = [(fst (last calls) + 500, snd (last calls))]"
    using assms by (intro runSaves_window) simp_all
  then obtain t where t: "timers (runSaves calls s) = [t]"
    and due: "dueAt t = fst (last calls) + 500" and tr: "treeToWrite t = snd (last calls)"
    by (cases "timers (runSaves calls s)") auto
  show ?thesis using run t due tr by (simp add: fireDue_def)
qed

theorem debounce_single_write_witness:
  "[(0, sampleTree), (100, []), (599, initialTreeData)] \<noteq> []
   \<and> withinWindow [(0, sampleTree), (100, []), (599, initialTreeData)]
   \<and> timers idleSave = []
   \<and> storedItems (fireDue 1098 (runSaves [(0, sampleTree), (100, []), (599, initialTreeData)] idleSave)) = []
   \<and> storedItems (fireDue 1099 (runSaves [(0, sampleTree), (100, []), (599, initialTreeData)] idleSave))
        = [initialTreeData]
   \<and> timers (fireDue 1099 (runSaves [(0, sampleTree), (100, []), (599, initialTreeData)] idleSave))
        = []"
  using debounce_single_write [of "[(0, sampleTree), (100, []), (599, initialTreeData)]" idleSave 1098]
        debounce_single_write [of "[(0, sampleTree), (100, []), (599, initialTreeData)]" idleSave 1099]
  by (simp add: idleSave_def)

text \<open>
  The cancellation is the cleanup's work. The three effect bodies of the example run
  without the cleanups in between leave three entries, and all three trees are
  written. With the cleanups one entry is left, and two runs 600 ms apart are two
  windows with a write each.
\<close>

lemma every_timer_fires_without_cleanup:
  "storedItems (fireDue 1099
      (effectBody 599 initialTreeData (effectBody 100 [] (effectBody 0 sampleTree idleSave))))
     = [sampleTree, [], initialTreeData]"
  by (simp add: effectBody_def setTimeout_def fireDue_def idleSave_def Let_def)

lemma window_run_evaluated:
  "timers (runSaves [(0, sampleTree), (100, []), (599, initialTreeData)] idleSave)
     = [\<lparr>timerId = 3, dueAt = 1099, treeToWrite = initialTreeData\<rparr>]
   \<and> storedItems (fireDue 1099 (runSaves [(0, sampleTree), (100, []), (599, initialTreeData)] idleSave))
     = [initialTreeData]
   \<and> storedItems (fireDue 1200 (runSaves [(0, sampleTree), (600, [])] idleSave))
     = [sampleTree, []]"
  by (simp add: saveEffect_def effectBody_def runCleanup_def clearTimeout_def setTimeout_def
        fireDue_def idleSave_def Let_def)

section \<open>Tag propagation (claim C1)\<close>

lemma findNodeInTree_in_allNodes:
  "findNodeInTree T nodeId = Some x \<Longrightarrow> x \<in> set (allNodes T)"
  by (simp add: findNodeInTree_eq_find find_Some_iff) (metis nth_mem)

lemma File_in_allNodes: "File f \<in> set (allNodes T) \<longleftrightarrow> f \<in> set (allFiles T)"
  by (induction T rule: allNodes.induct) auto

lemma unique_id_node:
  assumes "distinct (treeIds T)" and "findNodeInTree T nodeId = Some x"
    and "y \<in> set (allNodes T)" and "idOf y = nodeId"
  shows "y = x"
proof -
  have "inj_on idOf (set (allNodes T))"
    using assms(1) by (simp add: treeIds_def distinct_map)
  moreover have "x \<in> set (allNodes T)" by (rule findNodeInTree_in_allNodes [OF assms(2)])
  moreover have "idOf x = nodeId" by (rule findNodeInTree_Some_id [OF assms(2)])
  ultimately show ?thesis using assms(3,4) by (auto dest: inj_onD)
qed

lemma allFiles_addTag:
  "\<forall>x \<in> set (allNodes T). idOf x = fileId \<longrightarrow> (\<exists>f. x = File f) \<Longrightarrow>
   allFiles (updateNodeInTree T fileId (addTagUpdateFn fileId newTag))
     = map (addTagToFile fileId newTag) (allFiles T)"
proof (induction T fileId "addTagUpdateFn fileId newTag" rule: updateNodeInTree.induct)
  case (1 nodeId)
  then show ?case by simp
next
  case (2 f rest nodeId)
  then show ?case by (auto simp: addTagUpdateFn_File addTagToFile_def)
next
  case (3 i n ch p rest nodeId)
  from 3(3) have ne: "i \<noteq> nodeId" by auto
  from 3(3) have a: "\<forall>x \<in> set (allNodes ch). idOf x = nodeId \<longrightarrow> (\<exists>f. x = File f)"
    and b: "\<forall>x \<in> set (allNodes rest). idOf x = nodeId \<longrightarrow> (\<exists>f. x = File f)" by auto
  show ?case using ne 3(1) [OF ne a] 3(2) [OF b] by simp
qed

lemma node_id_addTagToFile [simp]: "node_id (addTagToFile i t f) = node_id f"
  by (simp add: addTagToFile_def)

lemma node_id_applyTagToFile [simp]: "node_id (applyTagToFile ids t f) = node_id f"
  by (simp add: applyTagToFile_def)

lemma hasTag_addTagToFile:
  "hasTag (addTagToFile i t f) t' \<longleftrightarrow> hasTag f t' \<or> (node_id f = i \<and> t' = t)"
  by (auto simp: addTagToFile_def hasTag_def split: option.splits)

lemma hasTag_applyTagToFile:
  "hasTag (applyTagToFile ids t f) t' \<longleftrightarrow> hasTag f t' \<or> (node_id f \<in> ids \<and> t' = t)"
  by (auto simp: applyTagToFile_def hasTag_def arrayFromSet_set split: option.splits)

lemma findAllImageFiles_filter: "findAllImageFiles T = filter isImage (allFiles T)"
  by (induction T rule: findAllImageFiles.induct) auto

lemma set_fileIds_subset: "set (map node_id (allFiles T)) \<subseteq> set (treeIds T)"
  by (induction T rule: allFiles.induct) auto

lemma distinct_fileIds: "distinct (treeIds T) \<Longrightarrow> distinct (map node_id (allFiles T))"
proof (induction T rule: allFiles.induct)
  case 1
  then show ?case by simp
next
  case (2 f rest)
  then show ?case using set_fileIds_subset [of rest] by auto
next
  case (3 i n ch p rest)
  then show ?case using set_fileIds_subset [of rest] set_fileIds_subset [of ch] by auto
qed

lemma recursivelyUpdateTags_empty: "recursivelyUpdateTags {} newTag T = T"
  by (induction "{} :: string set" newTag T rule: recursivelyUpdateTags.induct) auto

lemma distinct_otherImages:
  "distinct (treeIds T) \<Longrightarrow> distinct (map node_id (otherImagesOf T src t))"
  by (simp add: otherImagesOf_def findAllImageFiles_filter distinct_map_filter distinct_fileIds)

lemma set_otherImages_subset: "set (otherImagesOf T src t) \<subseteq> set (allFiles T)"
  by (auto simp: otherImagesOf_def findAllImageFiles_filter)

lemma handlePropagateTag_tree:
  assumes "findNodeInTree (treeData st) fileId = Some (File S)" and "isImage S"
  shows "treeData (fst (handlePropagateTag cmp st fileId tag))
           = recursivelyUpdateTags
               (node_id ` {c \<in> set (otherImagesOf (treeData st) S tag). cmp S c = Inr True}) tag
               (updateNodeInTree (treeData st) fileId (addTagUpdateFn fileId tag))"
proof -
  define cs where "cs = otherImagesOf (treeData st) S tag"
  define R where "R = node_id ` {c \<in> set cs. cmp S c = Inr True}"
  define T1 where "T1 = updateNodeInTree (treeData st) fileId (addTagUpdateFn fileId tag)"
  have scan: "updatedImageIds (scanLoop cmp S cs
                 \<lparr>updatedCount = 0, updatedImageIds = {}, comparisons = []\<rparr>) = R"
    by (simp add: scanLoop_updatedImageIds R_def)
  have run: "treeData (fst (handlePropagateTag cmp st fileId tag))
               = (if cs = [] then T1 else if R \<noteq> {} then recursivelyUpdateTags R tag T1 else T1)"
    using assms
    by (simp add: handlePropagateTag_def propagateTagToSimilarImages_def handleAddTag_def
          Let_def scan cs_def [symmetric] T1_def [symmetric])
  have "cs = [] \<Longrightarrow> R = {}" by (simp add: R_def)
  then have "(if cs = [] then T1 else if R \<noteq> {} then recursivelyUpdateTags R tag T1 else T1)
               = recursivelyUpdateTags R tag T1"
    by (cases "R = {}") (auto simp: recursivelyUpdateTags_empty)
  with run show ?thesis by (simp add: R_def cs_def T1_def)
qed

lemma handlePropagateTag_message:
  assumes "findNodeInTree (treeData st) fileId = Some (File S)" and "isImage S"
  shows "message (propagationStatus (fst (handlePropagateTag cmp st fileId tag)))
           = (if otherImagesOf (treeData st) S tag = [] then NoOtherImages
              else TagApplied (length (filter (\<lambda>c. cmp S c = Inr True)
                                          (otherImagesOf (treeData st) S tag))))"
  using assms
  by (simp add: handlePropagateTag_def propagateTagToSimilarImages_def
        Let_def scanLoop_updatedCount)

lemma card_matched:
  assumes "distinct (map node_id cs)"
  shows "card (node_id ` {c \<in> set cs. P c}) = length (filter P cs)"
proof -
  have "node_id ` {c \<in> set cs. P c} = set (map node_id (filter P cs))" by auto
  moreover have "distinct (map node_id (filter P cs))"
    using assms by (rule distinct_map_filter)
  ultimately show ?thesis by (simp add: distinct_card del: set_map)
qed

lemma taggedIds_after:
  assumes ids: "distinct (treeIds T)"
    and src: "findNodeInTree T fileId = Some (File S)"
    and sub: "R \<subseteq> node_id ` set (allFiles T)"
  shows "set (taggedIds (recursivelyUpdateTags R tag
                  (updateNodeInTree T fileId (addTagUpdateFn fileId tag))) tag)
           = set (taggedIds T tag) \<union> {fileId} \<union> R"
proof -
  have onlyFiles: "\<forall>x \<in> set (allNodes T). idOf x = fileId \<longrightarrow> (\<exists>f. x = File f)"
    using unique_id_node [OF ids src] by auto
  have S_in: "S \<in> set (allFiles T)"
    using findNodeInTree_in_allNodes [OF src] by (simp add: File_in_allNodes)
  have S_id: "node_id S = fileId" using findNodeInTree_Some_id [OF src] by simp
  have "taggedIds (recursivelyUpdateTags R tag
                  (updateNodeInTree T fileId (addTagUpdateFn fileId tag))) tag
        = map node_id (filter (\<lambda>f. hasTag f tag \<or> node_id f = fileId \<or> node_id f \<in> R)
                         (allFiles T))"
    by (simp add: taggedIds_def allFiles_recursivelyUpdateTags allFiles_addTag [OF onlyFiles]
          filter_map o_def hasTag_applyTagToFile hasTag_addTagToFile disj_ac)
  then have "set (taggedIds (recursivelyUpdateTags R tag
                  (updateNodeInTree T fileId (addTagUpdateFn fileId tag))) tag)
        = node_id ` {f \<in> set (allFiles T). hasTag f tag \<or> node_id f = fileId \<or> node_id f \<in> R}"
    by simp
  also have "\<dots> = set (taggedIds T tag) \<union> {fileId} \<union> R"
    using S_in S_id sub by (auto simp: taggedIds_def)
  finally show ?thesis .
qed

lemma others_untouched:
  assumes ids: "distinct (treeIds T)"
    and src: "findNodeInTree T fileId = Some (File S)"
  shows "filter (\<lambda>f. node_id f \<notin> insert fileId R)
           (allFiles (recursivelyUpdateTags R tag
                        (updateNodeInTree T fileId (addTagUpdateFn fileId tag))))
         = filter (\<lambda>f. node_id f \<notin> insert fileId R) (allFiles T)"
proof -
  have onlyFiles: "\<forall>x \<in> set (allNodes T). idOf x = fileId \<longrightarrow> (\<exists>f. x = File f)"
    using unique_id_node [OF ids src] by auto
  have same: "node_id f \<notin> insert fileId R \<Longrightarrow>
              applyTagToFile R tag (addTagToFile fileId tag f) = f" for f
    by (simp add: applyTagToFile_def addTagToFile_def)
  show ?thesis
    by (simp add: allFiles_recursivelyUpdateTags allFiles_addTag [OF onlyFiles]
          filter_map o_def) (rule map_idI, simp add: same)
qed

lemma scan_order_independent:
  assumes "distinct (map node_id cs)" and "distinct cs'" and "set cs' = set cs"
  shows "updatedImageIds (scanLoop cmp S cs' \<lparr>updatedCount = 0, updatedImageIds = {}, comparisons = []\<rparr>)
           = node_id ` {c \<in> set cs. cmp S c = Inr True}
       \<and> updatedCount (scanLoop cmp S cs' \<lparr>updatedCount = 0, updatedImageIds = {}, comparisons = []\<rparr>)
           = card (node_id ` {c \<in> set cs. cmp S c = Inr True})"
proof -
  have inj: "inj_on node_id (set cs)" using assms(1) by (simp add: distinct_map)
  then have "distinct (map node_id cs')" using assms(2,3) by (simp add: distinct_map)
  then have "card (node_id ` {c \<in> set cs'. cmp S c = Inr True})
               = length (filter (\<lambda>c. cmp S c = Inr True) cs')"
    by (rule card_matched)
  then show ?thesis using assms(3)
    by (simp add: scanLoop_updatedImageIds scanLoop_updatedCount)
qed

text \<open>
  C1 (as amended). Let the ids of the tree be unique, let \<open>fileId\<close> resolve to the
  image file \<open>S\<close>, and let the comparator, asked about \<open>S\<close> and a candidate, answer
  \<open>True\<close> on exactly the candidates whose ids form \<open>M\<close> (a rejection is not an answer
  \<open>True\<close>; what the comparator answers for other sources is left open), the candidates
  being the images other than \<open>S\<close> that do not carry \<open>tag\<close>. After \<open>handlePropagateTag\<close> the files that
  carry \<open>tag\<close> are those that carried it before together with \<open>S\<close> and \<open>M\<close>: no other
  node gains or loses it. The tree has the same nodes in the same order, and every
  file other than \<open>S\<close> and those of \<open>M\<close> is exactly as it was. When at
  least one candidate was gathered the banner reports the count \<open>card M\<close>; when none
  was gathered it says that no other images were found, and gives no count. The set
  of matched ids and the count are the same for every order in which the candidates
  could be enumerated, and they do not depend on which comparisons were rejected.
\<close>

theorem propagateTag_correct:
  assumes ids: "distinct (treeIds (treeData st))"
    and src: "findNodeInTree (treeData st) fileId = Some (File S)"
    and img: "isImage S"
    and verdict: "\<forall>c \<in> set (otherImagesOf (treeData st) S tag).
                    (cmp S c = Inr True) = (node_id c \<in> M)"
    and sub: "M \<subseteq> node_id ` set (otherImagesOf (treeData st) S tag)"
  shows "set (taggedIds (treeData (fst (handlePropagateTag cmp st fileId tag))) tag)
           = set (taggedIds (treeData st) tag) \<union> {fileId} \<union> M
       \<and> treeIds (treeData (fst (handlePropagateTag cmp st fileId tag))) = treeIds (treeData st)
       \<and> filter (\<lambda>f. node_id f \<notin> insert fileId M)
             (allFiles (treeData (fst (handlePropagateTag cmp st fileId tag))))
           = filter (\<lambda>f. node_id f \<notin> insert fileId M) (allFiles (treeData st))
       \<and> message (propagationStatus (fst (handlePropagateTag cmp st fileId tag)))
           = (if otherImagesOf (treeData st) S tag = [] then NoOtherImages
              else TagApplied (card M))
       \<and> (\<forall>cs'. distinct cs' \<and> set cs' = set (otherImagesOf (treeData st) S tag) \<longrightarrow>
             updatedImageIds (scanLoop cmp S cs'
                \<lparr>updatedCount = 0, updatedImageIds = {}, comparisons = []\<rparr>) = M
             \<and> updatedCount (scanLoop cmp S cs'
                \<lparr>updatedCount = 0, updatedImageIds = {}, comparisons = []\<rparr>) = card M)"
proof -
  let ?cs = "otherImagesOf (treeData st) S tag"
  have M_eq: "node_id ` {c \<in> set ?cs. cmp S c = Inr True} = M"
    using verdict sub by auto
  have dcs: "distinct (map node_id ?cs)" by (rule distinct_otherImages [OF ids])
  have subF: "M \<subseteq> node_id ` set (allFiles (treeData st))"
    using sub set_otherImages_subset [of "treeData st" S tag] by auto
  have tree: "treeData (fst (handlePropagateTag cmp st fileId tag))
                = recursivelyUpdateTags M tag
                    (updateNodeInTree (treeData st) fileId (addTagUpdateFn fileId tag))"
    using handlePropagateTag_tree [OF src img, of cmp tag] by (simp only: M_eq)
  have c1: "set (taggedIds (treeData (fst (handlePropagateTag cmp st fileId tag))) tag)
              = set (taggedIds (treeData st) tag) \<union> {fileId} \<union> M"
    unfolding tree by (rule taggedIds_after [OF ids src subF])
  have c2: "treeIds (treeData (fst (handlePropagateTag cmp st fileId tag))) = treeIds (treeData st)"
    unfolding tree by (simp add: treeIds_recursivelyUpdateTags treeIds_addTag)
  have c5: "filter (\<lambda>f. node_id f \<notin> insert fileId M)
             (allFiles (treeData (fst (handlePropagateTag cmp st fileId tag))))
           = filter (\<lambda>f. node_id f \<notin> insert fileId M) (allFiles (treeData st))"
    unfolding tree by (rule others_untouched [OF ids src])
  have "card M = length (filter (\<lambda>c. cmp S c = Inr True) ?cs)"
    using card_matched [OF dcs, of "\<lambda>c. cmp S c = Inr True"] by (simp only: M_eq)
  then have c3: "message (propagationStatus (fst (handlePropagateTag cmp st fileId tag)))
           = (if ?cs = [] then NoOtherImages else TagApplied (card M))"
    using handlePropagateTag_message [OF src img, of cmp tag] by simp
  have c4: "\<forall>cs'. distinct cs' \<and> set cs' = set ?cs \<longrightarrow>
             updatedImageIds (scanLoop cmp S cs'
                \<lparr>updatedCount = 0, updatedImageIds = {}, comparisons = []\<rparr>) = M
             \<and> updatedCount (scanLoop cmp S cs'
                \<lparr>updatedCount = 0, updatedImageIds = {}, comparisons = []\<rparr>) = card M"
    using scan_order_independent [OF dcs, of _ cmp S] by (simp only: M_eq) blast
  from c1 c2 c3 c4 c5 show ?thesis by blast
qed

theorem propagateTag_correct_witness:
  "distinct (treeIds (treeData sampleState))
   \<and> findNodeInTree (treeData sampleState) ''a'' = Some (File imgA)
   \<and> isImage imgA
   \<and> otherImagesOf (treeData sampleState) imgA ''cat'' = [imgB, imgC]
   \<and> failsOnB imgA imgB = Inl ''network''
   \<and> failsOnB imgA imgC = Inr True
   \<and> taggedIds (treeData sampleState) ''cat'' = []
   \<and> set (taggedIds (treeData (fst (handlePropagateTag failsOnB sampleState ''a'' ''cat''))) ''cat'')
        = {''a'', ''c''}
   \<and> message (propagationStatus (fst (handlePropagateTag failsOnB sampleState ''a'' ''cat'')))
        = TagApplied 1
   \<and> updatedImageIds (scanLoop failsOnB imgA [imgC, imgB]
          \<lparr>updatedCount = 0, updatedImageIds = {}, comparisons = []\<rparr>) = {''c''}
   \<and> updatedCount (scanLoop failsOnB imgA [imgC, imgB]
          \<lparr>updatedCount = 0, updatedImageIds = {}, comparisons = []\<rparr>) = 1
   \<and> sameMime imgA imgB = Inr True
   \<and> sameMime imgA imgC = Inr False
   \<and> sameMime imgC imgC = Inr True
   \<and> set (taggedIds (treeData (fst (handlePropagateTag sameMime sampleState ''a'' ''cat''))) ''cat'')
        = {''a'', ''b''}
   \<and> message (propagationStatus (fst (handlePropagateTag sameMime sampleState ''a'' ''cat'')))
        = TagApplied 1"
proof -
  let ?s0 = "\<lparr>updatedCount = 0, updatedImageIds = {}, comparisons = []\<rparr>"
  have h1: "distinct (treeIds (treeData sampleState))" by (simp add: sample_defs)
  have h2: "findNodeInTree (treeData sampleState) ''a'' = Some (File imgA)"
    by (simp add: sample_defs)
  have h3: "isImage imgA" by (simp add: isImage_def imgA_def)
  have cands: "otherImagesOf (treeData sampleState) imgA ''cat'' = [imgB, imgC]"
    by (simp add: sample_defs otherImagesOf_def hasTag_def isImage_def)
  have fB: "failsOnB imgA imgB = Inl ''network''" and fC: "failsOnB imgA imgC = Inr True"
    by (simp_all add: failsOnB_def imgB_def imgC_def)
  have mB: "sameMime imgA imgB = Inr True" and mC: "sameMime imgA imgC = Inr False"
    and mCC: "sameMime imgC imgC = Inr True"
    by (simp_all add: sameMime_def imgA_def imgB_def imgC_def)
  have h4: "\<forall>c \<in> set (otherImagesOf (treeData sampleState) imgA ''cat'').
              (failsOnB imgA c = Inr True) = (node_id c \<in> {''c''})"
    unfolding cands by (simp add: failsOnB_def imgB_def imgC_def)
  have h5: "{''c''} \<subseteq> node_id ` set (otherImagesOf (treeData sampleState) imgA ''cat'')"
    unfolding cands by (simp add: imgC_def)
  have k4: "\<forall>c \<in> set (otherImagesOf (treeData sampleState) imgA ''cat'').
              (sameMime imgA c = Inr True) = (node_id c \<in> {''b''})"
    unfolding cands by (simp add: sameMime_def imgA_def imgB_def imgC_def)
  have k5: "{''b''} \<subseteq> node_id ` set (otherImagesOf (treeData sampleState) imgA ''cat'')"
    unfolding cands by (simp add: imgB_def)
  have before: "taggedIds (treeData sampleState) ''cat'' = []"
    by (simp add: sample_defs taggedIds_def hasTag_def)
  note run = propagateTag_correct [where cmp = failsOnB, OF h1 h2 h3 h4 h5]
  note run' = propagateTag_correct [where cmp = sameMime, OF h1 h2 h3 k4 k5]
  from run have a: "set (taggedIds (treeData (fst (handlePropagateTag failsOnB sampleState ''a'' ''cat''))) ''cat'')
        = {''a'', ''c''}"
    unfolding before by auto
  from run have b: "message (propagationStatus (fst (handlePropagateTag failsOnB sampleState ''a'' ''cat'')))
        = TagApplied 1"
    unfolding cands by simp
  have "distinct [imgC, imgB] \<and> set [imgC, imgB] = set (otherImagesOf (treeData sampleState) imgA ''cat'')"
    unfolding cands by (auto simp: imgB_def imgC_def)
  with run have c: "updatedImageIds (scanLoop failsOnB imgA [imgC, imgB] ?s0) = {''c''}
                  \<and> updatedCount (scanLoop failsOnB imgA [imgC, imgB] ?s0) = card {''c''}"
    by blast
  from run' have a': "set (taggedIds (treeData (fst (handlePropagateTag sameMime sampleState ''a'' ''cat''))) ''cat'')
        = {''a'', ''b''}"
    unfolding before by auto
  from run' have b': "message (propagationStatus (fst (handlePropagateTag sameMime sampleState ''a'' ''cat'')))
        = TagApplied 1"
    unfolding cands by simp
  from h1 h2 h3 cands fB fC mB mC mCC before a b c a' b' show ?thesis by simp
qed

text \<open>
  C1 as stated fails in two ways. It asks for a reported count of \<open>card M\<close> in every
  run: in a workspace whose only image is the source no candidate is gathered, \<open>M\<close>
  is empty, and the run ends in the guard for an empty candidate list, where the
  banner is the text for "no other images", not the text that carries a count of
  zero. And it asks that exactly \<open>S\<close> and \<open>M\<close> carry the tag: in the example workspace
  \<open>c.jpg\<close> carries \<open>dog\<close> already, so it is no candidate of a run for \<open>a.png\<close> and
  \<open>dog\<close>; with a comparator that never matches, \<open>M\<close> is empty, and afterwards \<open>a.png\<close>
  and \<open>c.jpg\<close> carry the tag, which is more than \<open>S\<close> and \<open>M\<close>.
\<close>

theorem propagateTag_as_stated_fails:
  "findNodeInTree (treeData soloState) ''a'' = Some (File imgA)
   \<and> isImage imgA
   \<and> otherImagesOf (treeData soloState) imgA ''cat'' = []
   \<and> message (propagationStatus (fst (handlePropagateTag (\<lambda>a b. Inr True) soloState ''a'' ''cat'')))
        = NoOtherImages
   \<and> NoOtherImages \<noteq> TagApplied (card ({} :: string set))
   \<and> distinct (treeIds (treeData sampleState))
   \<and> findNodeInTree (treeData sampleState) ''a'' = Some (File imgA)
   \<and> otherImagesOf (treeData sampleState) imgA ''dog'' = [imgB]
   \<and> neverMatches imgA imgB = Inr False
   \<and> taggedIds (treeData (fst (handlePropagateTag neverMatches sampleState ''a'' ''dog''))) ''dog''
        = [''a'', ''c'']
   \<and> set [''a'', ''c''] \<noteq> {''a''} \<union> ({} :: string set)"
  by (simp add: propagate_defs sample_defs soloState_def neverMatches_def taggedIds_def)

section \<open>Duplicate-free tags (claim C4)\<close>

text \<open>
  The two paths that write single tags keep the invariant. In a tree where no file
  has a tag twice, this still holds after a tag is added directly, any number \<open>k\<close> of
  times; after the batch-apply of a propagation, for any set of matched ids; and
  after a whole propagation run. An analysis request keeps it when the tag list the
  analyzer returned has no tag twice (a rejected or cached request changes no tags).
\<close>

theorem tags_stay_distinct:
  assumes "tagsDistinct (treeData st)"
  shows "tagsDistinct (treeData (((\<lambda>s. handleAddTag s fileId newTag) ^^ k) st))
       \<and> tagsDistinct (recursivelyUpdateTags ids newTag (treeData st))
       \<and> tagsDistinct (treeData (fst (handlePropagateTag cmp st fileId newTag)))
       \<and> ((case analyzeFile (node_name node) (content node) (mimeType node) of
              Inr a \<Rightarrow> distinct (tags a) | Inl msg \<Rightarrow> True) \<longrightarrow>
            tagsDistinct (treeData (fst (handleSelectNode analyzeFile st node))))"
  using assms
  by (auto simp: tagsDistinct_repeat tagsDistinct_recursivelyUpdateTags
        tagsDistinct_handlePropagateTag intro!: tagsDistinct_handleSelectNode)

theorem tags_stay_distinct_witness:
  "tagsDistinct (treeData sampleState)
   \<and> tagsDistinct (treeData (((\<lambda>s. handleAddTag s ''a'' ''cat'') ^^ 2) sampleState))
   \<and> findNodeInTree (treeData (handleAddTag (handleAddTag sampleState ''a'' ''cat'') ''a'' ''cat'')) ''a''
       = Some (File (imgA\<lparr>analysis := Some \<lparr>summary = [], suggestedName = [],
                                             tags = [''cat''], documentType = ''Unknown''\<rparr>\<rparr>))
   \<and> tagsDistinct (recursivelyUpdateTags {''c''} ''dog'' (treeData sampleState))
   \<and> tagsDistinct (treeData (fst (handlePropagateTag failsOnB sampleState ''a'' ''cat'')))
   \<and> analyzerOk (node_name imgA) (content imgA) (mimeType imgA)
       = Inr \<lparr>summary = ''An image.'', suggestedName = ''image.png'', tags = [''photo''],
              documentType = ''Image''\<rparr>
   \<and> tagsDistinct (treeData (fst (handleSelectNode analyzerOk sampleState imgA)))"
  using tags_stay_distinct [where st = sampleState and fileId = "''a''" and newTag = "''cat''"
          and k = 2 and cmp = failsOnB and analyzeFile = analyzerOk and node = imgA]
        tags_stay_distinct [where st = sampleState and ids = "{''c''}" and newTag = "''dog''"
          and k = 0 and analyzeFile = analyzerDown and node = imgA]
  by (simp add: sample_defs tagsDistinct_def tagsOf_def analyzerOk_def analyzerDown_def
        handleAddTag_def addTagUpdateFn_def Let_def)

text \<open>
  C4, evaluated on the example workspace for the third operation, attaching an
  analysis. No file of the tree has a tag twice. The analyzer answers the request
  for \<open>a.png\<close> with the tag list \<open>[photo, photo]\<close>; \<open>handleSelectNode\<close> stores the
  answer as it came, so the node \<open>a\<close> ends with a repeated tag and the invariant that
  \<open>handleAddTag\<close> (by its \<^verbatim>\<open>includes\<close> guard) and the batch-apply (by its \<^verbatim>\<open>Set\<close>) keep
  is broken.
\<close>

theorem attach_keeps_repeated_tags:
  "tagsDistinct (treeData sampleState)
   \<and> analysis imgA = None
   \<and> findNodeInTree (treeData sampleState) ''a'' = Some (File imgA)
   \<and> tagsOf imgA = []
   \<and> findNodeInTree (treeData (fst (handleSelectNode analyzerRepeats sampleState imgA))) ''a''
       = Some (File (imgA\<lparr>analysis := Some \<lparr>summary = ''An image.'',
            suggestedName = ''image.png'', tags = [''photo'', ''photo''],
            documentType = ''Image''\<rparr>\<rparr>))
   \<and> \<not> tagsDistinct (treeData (fst (handleSelectNode analyzerRepeats sampleState imgA)))"
  by (simp add: sample_defs tagsDistinct_def tagsOf_def analyzerRepeats_def
        handleSelectNode_def Let_def)

end
